theory Spec2Isabelle
  imports Main "HOL-Library.AList"
begin

section \<open>Python values and exceptions\<close>

text \<open>
  The workflow document is what \<^verbatim>\<open>json.load\<close> returns: nested dicts with string keys,
  lists, strings, integers, booleans and \<^verbatim>\<open>None\<close>. Floating-point numbers are left out.
  A dict is an association list in insertion order; where a key occurs twice the first
  binding is the dict's entry (\<open>map_of\<close>), and iteration visits each key once
  (\<open>dict_items\<close>).
\<close>

datatype json =
    JNull
  | JBool bool
  | JInt int
  | JStr string
  | JArr "json list"
  | JObj "(string \<times> json) list"

text \<open>Hashable values as dict keys: Python has \<^verbatim>\<open>True == 1\<close> and \<^verbatim>\<open>False == 0\<close>,
  so a boolean and that integer are the same key.\<close>

datatype key = KInt int | KStr string

datatype error =
    KeyError key
  | IndexError
  | TypeError
  | AttributeError
  | ValueError
  | NetworkXError
  | FileNotFoundError
  | OSError
  | OverflowError
  | JSONDecodeError

definition bind :: "error + 'a \<Rightarrow> ('a \<Rightarrow> error + 'b) \<Rightarrow> error + 'b" where
  "bind m f = (case m of Inl e \<Rightarrow> Inl e | Inr x \<Rightarrow> f x)"

text \<open>A \<^verbatim>\<open>for\<close> loop whose body may raise: the first exception ends the loop.\<close>

fun for_each :: "('s \<Rightarrow> 'a \<Rightarrow> error + 's) \<Rightarrow> 's \<Rightarrow> 'a list \<Rightarrow> error + 's" where
  "for_each body s [] = Inr s"
| "for_each body s (x # xs) =
     (case body s x of Inl e \<Rightarrow> Inl e | Inr s' \<Rightarrow> for_each body s' xs)"

subsection \<open>Dict operations\<close>

definition dict_get :: "(string \<times> json) list \<Rightarrow> string \<Rightarrow> json \<Rightarrow> json" where
  \<comment> \<open>\<^verbatim>\<open>d.get(k, default)\<close>\<close>
  "dict_get d k dflt = (case map_of d k of Some v \<Rightarrow> v | None \<Rightarrow> dflt)"

primrec items_from :: "string list \<Rightarrow> (string \<times> 'v) list \<Rightarrow> (string \<times> 'v) list" where
  "items_from seen [] = []"
| "items_from seen (kv # rest) =
     (if fst kv \<in> set seen then items_from seen rest
      else kv # items_from (fst kv # seen) rest)"

definition dict_items :: "(string \<times> 'v) list \<Rightarrow> (string \<times> 'v) list" where
  \<comment> \<open>\<^verbatim>\<open>d.items()\<close>: each key once, in insertion order\<close>
  "dict_items d = items_from [] d"

subsection \<open>Operators on arbitrary values\<close>

definition py_getitem :: "json \<Rightarrow> string \<Rightarrow> error + json" where
  \<comment> \<open>\<^verbatim>\<open>obj[k]\<close> for a string \<open>k\<close>: only a dict can be subscripted by a string\<close>
  "py_getitem obj k =
     (case obj of
        JObj d \<Rightarrow> (case map_of d k of Some v \<Rightarrow> Inr v | None \<Rightarrow> Inl (KeyError (KStr k)))
      | _ \<Rightarrow> Inl TypeError)"

definition py_index :: "json \<Rightarrow> nat \<Rightarrow> error + json" where
  \<comment> \<open>\<^verbatim>\<open>obj[i]\<close> for an integer \<open>i \<ge> 0\<close>\<close>
  "py_index obj i =
     (case obj of
        JArr xs \<Rightarrow> (if i < length xs then Inr (xs ! i) else Inl IndexError)
      | JStr s \<Rightarrow> (if i < length s then Inr (JStr [s ! i]) else Inl IndexError)
      | JObj d \<Rightarrow> Inl (KeyError (KInt (int i)))
      | _ \<Rightarrow> Inl TypeError)"

definition py_len :: "json \<Rightarrow> error + nat" where
  "py_len obj =
     (case obj of
        JArr xs \<Rightarrow> Inr (length xs)
      | JStr s \<Rightarrow> Inr (length s)
      | JObj d \<Rightarrow> Inr (length (dict_items d))
      | _ \<Rightarrow> Inl TypeError)"

definition py_neg :: "json \<Rightarrow> error + json" where
  \<comment> \<open>unary minus; \<^verbatim>\<open>-True\<close> is \<^verbatim>\<open>-1\<close>\<close>
  "py_neg obj =
     (case obj of
        JInt i \<Rightarrow> Inr (JInt (- i))
      | JBool b \<Rightarrow> Inr (JInt (- (if b then 1 else 0)))
      | _ \<Rightarrow> Inl TypeError)"

definition py_iter :: "json \<Rightarrow> error + json list" where
  \<comment> \<open>the elements a \<^verbatim>\<open>for\<close> loop visits: a dict gives its keys, a string its characters\<close>
  "py_iter obj =
     (case obj of
        JArr xs \<Rightarrow> Inr xs
      | JObj d \<Rightarrow> Inr (map (\<lambda>kv. JStr (fst kv)) (dict_items d))
      | JStr s \<Rightarrow> Inr (map (\<lambda>c. JStr [c]) s)
      | _ \<Rightarrow> Inl TypeError)"

definition py_items :: "json \<Rightarrow> error + (string \<times> json) list" where
  \<comment> \<open>\<^verbatim>\<open>obj.items()\<close>: only a dict has the method\<close>
  "py_items obj = (case obj of JObj d \<Rightarrow> Inr (dict_items d) | _ \<Rightarrow> Inl AttributeError)"

fun split_on :: "char \<Rightarrow> string \<Rightarrow> string list" where
  \<comment> \<open>\<^verbatim>\<open>s.split(c)\<close> for a one-character separator\<close>
  "split_on c [] = [[]]"
| "split_on c (x # xs) =
     (if x = c then [] # split_on c xs
      else (case split_on c xs of w # ws \<Rightarrow> (x # w) # ws | [] \<Rightarrow> [[x]]))"

definition last_segment :: "string \<Rightarrow> string" where
  \<comment> \<open>\<^verbatim>\<open>s.split('.')[-1]\<close>\<close>
  "last_segment s = last (split_on CHR ''.'' s)"

definition key_of :: "json \<Rightarrow> error + key" where
  \<comment> \<open>the graph library's vertex test: an unhashable value raises TypeError at the
      membership test, \<^verbatim>\<open>None\<close> raises ValueError ("None cannot be a node")\<close>
  "key_of v =
     (case v of
        JStr s \<Rightarrow> Inr (KStr s)
      | JInt i \<Rightarrow> Inr (KInt i)
      | JBool b \<Rightarrow> Inr (KInt (if b then 1 else 0))
      | JNull \<Rightarrow> Inl ValueError
      | _ \<Rightarrow> Inl TypeError)"

section \<open>The directed graph\<close>

text \<open>
  \<^verbatim>\<open>nx.DiGraph\<close>: vertices with an attribute dict each, and at most one edge per ordered
  pair of vertices with an attribute dict of its own. \<^verbatim>\<open>parse_workflow\<close> gives a vertex
  the three attributes \<^verbatim>\<open>label\<close>, \<^verbatim>\<open>type\<close>, \<^verbatim>\<open>parameters\<close> together; a vertex that
  only an edge created has the empty attribute dict (\<open>None\<close>). An edge's attribute dict
  is always \<^verbatim>\<open>{'connection_type': c}\<close>, kept as \<open>c\<close>.
\<close>

record attrs =
  label :: json
  ntype :: string
  parameters :: json

record graph =
  g_nodes :: "(key \<times> attrs option) list"
  g_edges :: "((key \<times> key) \<times> string) list"

definition empty_graph :: graph where
  "empty_graph = \<lparr>g_nodes = [], g_edges = []\<rparr>"

definition has_node :: "graph \<Rightarrow> key \<Rightarrow> bool" where
  "has_node g k = (k \<in> fst ` set (g_nodes g))"

definition add_node :: "graph \<Rightarrow> json \<Rightarrow> attrs \<Rightarrow> error + graph" where
  \<comment> \<open>\<^verbatim>\<open>G.add_node(n, label=.., type=.., parameters=..)\<close>: a new vertex, or the three
      attributes of an existing one overwritten\<close>
  "add_node g n a =
     bind (key_of n) (\<lambda>k. Inr (g\<lparr>g_nodes := AList.update k (Some a) (g_nodes g)\<rparr>))"

definition ensure_node :: "key \<Rightarrow> graph \<Rightarrow> graph" where
  \<comment> \<open>\<^verbatim>\<open>add_edge\<close> creates a missing endpoint with no attributes\<close>
  "ensure_node k g = (if has_node g k then g else g\<lparr>g_nodes := g_nodes g @ [(k, None)]\<rparr>)"

definition add_edge :: "graph \<Rightarrow> json \<Rightarrow> json \<Rightarrow> string \<Rightarrow> error + graph" where
  \<comment> \<open>\<^verbatim>\<open>G.add_edge(u, v, connection_type=c)\<close>: the attribute of an existing edge
      \<open>(u, v)\<close> is overwritten\<close>
  "add_edge g u v c =
     bind (key_of u) (\<lambda>ku.
     let g1 = ensure_node ku g in
     bind (key_of v) (\<lambda>kv.
     let g2 = ensure_node kv g1 in
     Inr (g2\<lparr>g_edges := AList.update (ku, kv) c (g_edges g2)\<rparr>)))"

section \<open>WorkflowVisualizer\<close>

text \<open>A stored position is the pair \<^verbatim>\<open>(x, -y)\<close>; a position computed by the layout
  routine is a point whose coordinates are not modelled.\<close>

datatype coord = Coord json json | Spring

record visualizer =
  workflow :: json
  graph :: graph
  pos :: "(key \<times> coord) list"

definition type_colors :: "(string \<times> string) list" where
  "type_colors =
    [(''n8n-nodes-base.start'', ''#ff9a9c''),
     (''n8n-nodes-base.httpRequest'', ''#a4c2f4''),
     (''n8n-nodes-base.if'', ''#ffcc80''),
     (''n8n-nodes-base.function'', ''#d5a6bd''),
     (''n8n-nodes-base.set'', ''#b4a7d6''),
     (''n8n-nodes-base.code'', ''#a2c4c9''),
     (''n8n-nodes-base.moveBinaryData'', ''#b6d7a8''),
     (''n8n-nodes-base.spreadsheetFile'', ''#f9cb9c''),
     (''n8n-nodes-base.switch'', ''#ea9999''),
     (''n8n-nodes-base.merge'', ''#9fc5e8''),
     (''n8n-nodes-base.noOp'', ''#cccccc'')]"

definition WorkflowVisualizer :: "json \<Rightarrow> visualizer" where
  "WorkflowVisualizer workflow_data =
     \<lparr>workflow = workflow_data, graph = empty_graph, pos = []\<rparr>"

subsection \<open>parse_workflow\<close>

definition parse_node :: "visualizer \<Rightarrow> json \<Rightarrow> error + visualizer" where
  \<comment> \<open>the body of the loop over the node records\<close>
  "parse_node vis node =
     bind (py_getitem node ''id'') (\<lambda>node_id.
     bind (py_getitem node ''type'') (\<lambda>ty.
     (case (node, ty) of
        (JObj nd, JStr node_type) \<Rightarrow>
          (let node_name = dict_get nd ''name'' (JStr (last_segment node_type)) in
           bind (add_node (graph vis) node_id
                   \<lparr>label = node_name, ntype = node_type,
                    parameters = dict_get nd ''parameters'' (JObj [])\<rparr>) (\<lambda>g.
           (case map_of nd ''position'' of
              None \<Rightarrow> Inr (vis\<lparr>graph := g\<rparr>)
            | Some p \<Rightarrow>
                bind (py_len p) (\<lambda>n.
                if n \<ge> 2 then
                  bind (py_index p 0) (\<lambda>x.
                  bind (py_index p 1) (\<lambda>y.
                  bind (py_neg y) (\<lambda>ny.
                  bind (key_of node_id) (\<lambda>k.
                  Inr (vis\<lparr>graph := g, pos := AList.update k (Coord x ny) (pos vis)\<rparr>)))))
                else Inr (vis\<lparr>graph := g\<rparr>)))))
      | _ \<Rightarrow> Inl AttributeError)))"

definition parse_connection :: "string \<Rightarrow> string \<Rightarrow> visualizer \<Rightarrow> json \<Rightarrow> error + visualizer" where
  "parse_connection source_node_id connection_type vis connection =
     bind (py_getitem connection ''node'') (\<lambda>target_node_id.
     bind (add_edge (graph vis) (JStr source_node_id) target_node_id connection_type) (\<lambda>g.
     Inr (vis\<lparr>graph := g\<rparr>)))"

definition parse_category :: "string \<Rightarrow> visualizer \<Rightarrow> string \<times> json \<Rightarrow> error + visualizer" where
  "parse_category source_node_id vis entry =
     bind (py_iter (snd entry)) (\<lambda>connection_list.
     for_each (parse_connection source_node_id (fst entry)) vis connection_list)"

definition parse_source :: "visualizer \<Rightarrow> string \<times> json \<Rightarrow> error + visualizer" where
  "parse_source vis entry =
     bind (py_items (snd entry)) (\<lambda>source_connections.
     for_each (parse_category (fst entry)) vis source_connections)"

definition parse_workflow :: "visualizer \<Rightarrow> error + visualizer" where
  "parse_workflow vis =
     (case workflow vis of
        JObj w \<Rightarrow>
          bind (py_iter (dict_get w ''nodes'' (JArr []))) (\<lambda>nodes.
          bind (for_each parse_node vis nodes) (\<lambda>vis1.
          bind (py_items (dict_get w ''connections'' (JObj []))) (\<lambda>connections.
          for_each parse_source vis1 connections)))
      | _ \<Rightarrow> Inl AttributeError)"

subsection \<open>Colours and labels\<close>

definition get_node_color :: "string \<Rightarrow> string" where
  \<comment> \<open>\<^verbatim>\<open>_get_node_color\<close>\<close>
  "get_node_color t = (case map_of type_colors t of Some c \<Rightarrow> c | None \<Rightarrow> ''#cccccc'')"

definition py_slice :: "json \<Rightarrow> nat \<Rightarrow> error + json" where
  \<comment> \<open>\<^verbatim>\<open>obj[:n]\<close>; slicing a dict raises (TypeError, KeyError from Python 3.12 on)\<close>
  "py_slice obj n =
     (case obj of
        JStr s \<Rightarrow> Inr (JStr (take n s))
      | JArr xs \<Rightarrow> Inr (JArr (take n xs))
      | _ \<Rightarrow> Inl TypeError)"

definition format :: "(json \<Rightarrow> string) \<Rightarrow> json \<Rightarrow> string" where
  \<comment> \<open>a value inside an f-string: a string as it is, any other value through Python's
      \<^verbatim>\<open>str\<close>, which is the parameter \<open>str_of\<close>\<close>
  "format str_of v = (case v of JStr s \<Rightarrow> s | _ \<Rightarrow> str_of v)"

definition get_node_label :: "(json \<Rightarrow> string) \<Rightarrow> attrs option \<Rightarrow> error + json" where
  \<comment> \<open>\<^verbatim>\<open>_get_node_label\<close>\<close>
  "get_node_label str_of node_data =
     (let lbl = (case node_data of Some a \<Rightarrow> label a | None \<Rightarrow> JStr []) in
      bind (py_len lbl) (\<lambda>n.
      if n > 20 then bind (py_slice lbl 18) (\<lambda>s. Inr (JStr (format str_of s @ ''...'')))
      else Inr lbl))"

section \<open>Drawing\<close>

text \<open>
  The plotting and graph-drawing libraries are modelled by the calls that returned, in
  order, each with the arguments that matter here. A call raises where it looks up the
  position of a vertex that has none. Whether it raises for another reason (a stored
  coordinate it cannot convert to a number, a file it cannot write) is the library's
  affair and a parameter of the model: \<open>lib p ev\<close> is the exception the call \<open>ev\<close>
  raises when the position map is \<open>p\<close>, if any; evaluating the coordinate arguments of
  the call belongs to it. The layout routine is taken to return.
\<close>

datatype event =
    SpringLayout
  | Figure
  | DrawEdges "(key \<times> key) list"
  | DrawNode key string
  | Text key string
  | DrawLabels "(key \<times> json) list"
  | DrawEdgeLabels "((key \<times> key) \<times> string) list"
  | Title json
  | AxisOff
  | TightLayout
  | SaveFig string
  | Print string
  | Show
  | Close

type_synonym 'a io = "event list \<times> (error + 'a)"

definition emit :: "event \<Rightarrow> unit io" where
  "emit ev = ([ev], Inr ())"

definition io_fail :: "error \<Rightarrow> 'a io" where
  "io_fail e = ([], Inl e)"

type_synonym library = "(key \<times> coord) list \<Rightarrow> event \<Rightarrow> error option"

definition call :: "library \<Rightarrow> (key \<times> coord) list \<Rightarrow> event \<Rightarrow> unit io" where
  \<comment> \<open>a library call: it raises, or it returns and is recorded\<close>
  "call lib p ev = (case lib p ev of Some e \<Rightarrow> io_fail e | None \<Rightarrow> emit ev)"

definition io_skip :: "unit io" where
  "io_skip = ([], Inr ())"

definition io_bind :: "'a io \<Rightarrow> ('a \<Rightarrow> 'b io) \<Rightarrow> 'b io" where
  "io_bind m f =
     (case m of
        (evs, Inl e) \<Rightarrow> (evs, Inl e)
      | (evs, Inr x) \<Rightarrow> (case f x of (evs', r) \<Rightarrow> (evs @ evs', r)))"

definition io_then :: "unit io \<Rightarrow> 'b io \<Rightarrow> 'b io" where
  "io_then m n = io_bind m (\<lambda>_. n)"

fun io_for :: "('a \<Rightarrow> unit io) \<Rightarrow> 'a list \<Rightarrow> unit io" where
  "io_for body [] = io_skip"
| "io_for body (x # xs) = io_then (body x) (io_for body xs)"

definition spring_layout :: "graph \<Rightarrow> (key \<times> coord) list" where
  \<comment> \<open>\<^verbatim>\<open>nx.spring_layout\<close> gives every vertex of the graph a position\<close>
  "spring_layout g = map (\<lambda>n. (fst n, Spring)) (g_nodes g)"

definition edges_view :: "graph \<Rightarrow> ((key \<times> key) \<times> string) list" where
  \<comment> \<open>\<^verbatim>\<open>G.edges(data=True)\<close>: by source vertex, in vertex order\<close>
  "edges_view g =
     concat (map (\<lambda>n. filter (\<lambda>e. fst (fst e) = fst n) (g_edges g)) (g_nodes g))"

definition require_pos :: "(key \<times> coord) list \<Rightarrow> key list \<Rightarrow> unit io" where
  \<comment> \<open>the lookups \<^verbatim>\<open>pos[k]\<close> of a drawing call: KeyError at the first key without a position\<close>
  "require_pos p ks =
     (case find (\<lambda>k. map_of p k = None) ks of Some k \<Rightarrow> io_fail (KeyError k) | None \<Rightarrow> io_skip)"

definition draw_networkx_edges :: "library \<Rightarrow> graph \<Rightarrow> (key \<times> coord) list \<Rightarrow> unit io" where
  "draw_networkx_edges lib g p =
     io_then (require_pos p (concat (map (\<lambda>e. [fst (fst e), snd (fst e)]) (edges_view g))))
       (call lib p (DrawEdges (map fst (edges_view g))))"

definition draw_networkx_nodes ::
  "library \<Rightarrow> (key \<times> coord) list \<Rightarrow> key \<Rightarrow> string \<Rightarrow> unit io" where
  \<comment> \<open>with \<^verbatim>\<open>nodelist=[node_id]\<close>; the library turns the KeyError of a missing position
      into its own "Node ... has no position" error, and otherwise converts the
      coordinate, which may raise\<close>
  "draw_networkx_nodes lib p node_id color =
     (case map_of p node_id of
        None \<Rightarrow> io_fail NetworkXError
      | Some _ \<Rightarrow> call lib p (DrawNode node_id color))"

definition draw_node :: "library \<Rightarrow> (key \<times> coord) list \<Rightarrow> key \<times> attrs option \<Rightarrow> unit io" where
  \<comment> \<open>the body of the loop over \<^verbatim>\<open>self.graph.nodes(data=True)\<close>\<close>
  "draw_node lib p n =
     (let node_type = (case snd n of Some a \<Rightarrow> ntype a | None \<Rightarrow> ''unknown'');
          color = get_node_color node_type in
      io_then (draw_networkx_nodes lib p (fst n) color)
     (io_then (require_pos p [fst n])
       (call lib p (Text (fst n) (last_segment node_type)))))"

definition node_labels :: "graph \<Rightarrow> error + (key \<times> json) list" where
  \<comment> \<open>\<^verbatim>\<open>{n: d['label'] for n, d in self.graph.nodes(data=True)}\<close>\<close>
  "node_labels g =
     for_each (\<lambda>acc n. case snd n of
                 Some a \<Rightarrow> Inr (acc @ [(fst n, label a)])
               | None \<Rightarrow> Inl (KeyError (KStr ''label''))) [] (g_nodes g)"

definition draw_networkx_labels ::
  "library \<Rightarrow> (key \<times> coord) list \<Rightarrow> (key \<times> json) list \<Rightarrow> unit io" where
  "draw_networkx_labels lib p labels =
     io_then (require_pos p (map fst labels)) (call lib p (DrawLabels labels))"

definition draw_networkx_edge_labels ::
  "library \<Rightarrow> (key \<times> coord) list \<Rightarrow> ((key \<times> key) \<times> string) list \<Rightarrow> unit io" where
  "draw_networkx_edge_labels lib p edge_labels =
     io_then (require_pos p (concat (map (\<lambda>e. [fst (fst e), snd (fst e)]) edge_labels)))
       (call lib p (DrawEdgeLabels edge_labels))"

definition truthy :: "string option \<Rightarrow> bool" where
  \<comment> \<open>\<^verbatim>\<open>if output_file:\<close> holds for a non-empty string, not for \<^verbatim>\<open>None\<close> or \<^verbatim>\<open>""\<close>\<close>
  "truthy s = (case s of None \<Rightarrow> False | Some f \<Rightarrow> f \<noteq> [])"

definition lift :: "error + 'a \<Rightarrow> 'a io" where
  \<comment> \<open>a computation that draws nothing\<close>
  "lift r = ([], r)"

fun io_seq :: "unit io list \<Rightarrow> unit io" where
  \<comment> \<open>statements in sequence; nothing runs after the first exception\<close>
  "io_seq [] = io_skip"
| "io_seq (m # ms) = io_then m (io_seq ms)"

definition layout :: "visualizer \<Rightarrow> (key \<times> coord) list io" where
  \<comment> \<open>\<^verbatim>\<open>if not self.pos: self.pos = nx.spring_layout(self.graph, ...)\<close>\<close>
  "layout vis =
     (if pos vis = [] then io_then (emit SpringLayout) (lift (Inr (spring_layout (graph vis))))
      else lift (Inr (pos vis)))"

definition workflow_name :: "visualizer \<Rightarrow> error + json" where
  \<comment> \<open>\<^verbatim>\<open>self.workflow.get('name', 'Untitled')\<close>\<close>
  "workflow_name vis =
     (case workflow vis of
        JObj w \<Rightarrow> Inr (dict_get w ''name'' (JStr ''Untitled''))
      | _ \<Rightarrow> Inl AttributeError)"

definition save :: "library \<Rightarrow> (key \<times> coord) list \<Rightarrow> string option \<Rightarrow> unit io" where
  \<comment> \<open>\<^verbatim>\<open>if output_file: plt.savefig(output_file, ...); print(...)\<close>\<close>
  "save lib p output_file =
     (case output_file of
        Some f \<Rightarrow>
          if truthy output_file
          then io_seq [call lib p (SaveFig f),
                       emit (Print (''Workflow visualization saved to '' @ f))]
          else io_skip
      | None \<Rightarrow> io_skip)"

definition draw :: "library \<Rightarrow> visualizer \<Rightarrow> string option \<Rightarrow> bool \<Rightarrow> unit io" where
  "draw lib vis output_file show =
     io_bind (layout vis) (\<lambda>p.
     io_seq
      [call lib p Figure,
       draw_networkx_edges lib (graph vis) p,
       io_for (draw_node lib p) (g_nodes (graph vis)),
       io_bind (lift (node_labels (graph vis))) (draw_networkx_labels lib p),
       draw_networkx_edge_labels lib p (edges_view (graph vis)),
       io_bind (lift (workflow_name vis)) (\<lambda>name. call lib p (Title name)),
       call lib p AxisOff,
       call lib p TightLayout,
       save lib p output_file,
       if show then call lib p Show else call lib p Close])"

section \<open>Entry points\<close>

definition visualize_workflow :: "library \<Rightarrow> json \<Rightarrow> string option \<Rightarrow> bool \<Rightarrow> unit io" where
  "visualize_workflow lib workflow_data output_file show =
     io_bind (lift (parse_workflow (WorkflowVisualizer workflow_data))) (\<lambda>visualizer.
     draw lib visualizer output_file show)"

text \<open>
  The surroundings of a run: \<open>fs path\<close> is \<open>None\<close> when no file exists at \<open>path\<close>,
  otherwise what opening the file and \<^verbatim>\<open>json.load\<close> give (the document, or the
  exception they raise); \<open>msg e\<close> is \<^verbatim>\<open>str(e)\<close>; \<open>plt\<close> is the behaviour of the
  plotting and drawing libraries.
\<close>

record env =
  fs :: "string \<Rightarrow> (error + json) option"
  msg :: "error \<Rightarrow> string"
  plt :: library

definition rfind :: "char \<Rightarrow> string \<Rightarrow> int" where
  \<comment> \<open>\<^verbatim>\<open>s.rfind(c)\<close>: the last index of \<open>c\<close>, or -1\<close>
  "rfind c s =
     (if c \<in> set s then int (length s) - 1 - int (length (takeWhile (\<lambda>x. x \<noteq> c) (rev s)))
      else - 1)"

definition basename :: "string \<Rightarrow> string" where
  \<comment> \<open>\<^verbatim>\<open>os.path.basename\<close> (POSIX)\<close>
  "basename p = drop (nat (rfind CHR ''/'' p + 1)) p"

definition splitext :: "string \<Rightarrow> string \<times> string" where
  \<comment> \<open>\<^verbatim>\<open>os.path.splitext\<close> (POSIX): split at the last dot of the last component, unless
      only dots precede it there\<close>
  "splitext p =
     (let sepIndex = rfind CHR ''/'' p; dotIndex = rfind CHR ''.'' p in
      if dotIndex > sepIndex \<and>
         list_ex (\<lambda>c. c \<noteq> CHR ''.'')
           (take (nat (dotIndex - (sepIndex + 1))) (drop (nat (sepIndex + 1)) p))
      then (take (nat dotIndex) p, drop (nat dotIndex) p)
      else (p, []))"

definition load :: "env \<Rightarrow> string \<Rightarrow> error + json" where
  \<comment> \<open>\<^verbatim>\<open>open(workflow_file)\<close> and \<^verbatim>\<open>json.load(f)\<close>\<close>
  "load ev path = (case fs ev path of None \<Rightarrow> Inl FileNotFoundError | Some r \<Rightarrow> r)"

definition visualize_workflow_file :: "env \<Rightarrow> string \<Rightarrow> string option \<Rightarrow> bool \<Rightarrow> unit io" where
  "visualize_workflow_file ev workflow_file output_file show =
     io_bind (lift (load ev workflow_file)) (\<lambda>workflow_data.
     let output_file' =
           (if \<not> truthy output_file \<and> \<not> show
            then Some (fst (splitext (basename workflow_file)) @ ''_visualization.png'')
            else output_file)
     in visualize_workflow (plt ev) workflow_data output_file' show)"

record args =
  workflow_file :: string
  output_arg :: "string option"
  no_show :: bool

definition main :: "env \<Rightarrow> args \<Rightarrow> event list \<times> int" where
  \<comment> \<open>the calls made and the exit status of the process, for parsed arguments\<close>
  "main ev a =
     (if fs ev (workflow_file a) = None
      then ([Print (''Error: File '' @ [CHR 0x27] @ workflow_file a @ [CHR 0x27] @ '' not found'')], 1)
      else (case visualize_workflow_file ev (workflow_file a) (output_arg a) (\<not> no_show a) of
              (evs, Inl e) \<Rightarrow> (evs @ [Print (''Error visualizing workflow: '' @ msg ev e)], 1)
            | (evs, Inr _) \<Rightarrow> (evs, 0)))"

section \<open>Notions used to state the properties\<close>

definition node_id :: "json \<Rightarrow> key option" where
  \<comment> \<open>the vertex key a node record's \<^verbatim>\<open>id\<close> stands for, when it has one\<close>
  "node_id node =
     (case py_getitem node ''id'' of
        Inr i \<Rightarrow> (case key_of i of Inr k \<Rightarrow> Some k | Inl _ \<Rightarrow> None)
      | Inl _ \<Rightarrow> None)"

definition target_key :: "json \<Rightarrow> key option" where
  \<comment> \<open>the vertex key of a target reference \<^verbatim>\<open>{"node": ...}\<close>\<close>
  "target_key connection =
     (case py_getitem connection ''node'' of
        Inr t \<Rightarrow> (case key_of t of Inr k \<Rightarrow> Some k | Inl _ \<Rightarrow> None)
      | Inl _ \<Rightarrow> None)"

definition category_entries :: "string \<Rightarrow> string \<times> json \<Rightarrow> (string \<times> string \<times> json) list" where
  "category_entries src entry =
     (case py_iter (snd entry) of
        Inr connection_list \<Rightarrow> map (\<lambda>c. (src, fst entry, c)) connection_list
      | Inl _ \<Rightarrow> [])"

definition source_entries :: "string \<times> json \<Rightarrow> (string \<times> string \<times> json) list" where
  "source_entries entry =
     (case py_items (snd entry) of
        Inr cats \<Rightarrow> concat (map (category_entries (fst entry)) cats)
      | Inl _ \<Rightarrow> [])"

definition connection_entries :: "json \<Rightarrow> (string \<times> string \<times> json) list" where
  \<comment> \<open>the triples (source id, connection category, target reference) of a document's
      connections mapping, in the order the loops of \<^verbatim>\<open>parse_workflow\<close> reach them\<close>
  "connection_entries doc =
     (case doc of
        JObj w \<Rightarrow>
          (case py_items (dict_get w ''connections'' (JObj [])) of
             Inr connections \<Rightarrow> concat (map source_entries connections)
           | Inl _ \<Rightarrow> [])
      | _ \<Rightarrow> [])"

definition categories_for :: "(string \<times> string \<times> json) list \<Rightarrow> string \<Rightarrow> key \<Rightarrow> string list" where
  \<comment> \<open>the categories under which \<open>src\<close> lists the target \<open>k\<close>, in processing order\<close>
  "categories_for es src k =
     map (\<lambda>e. fst (snd e)) (filter (\<lambda>e. fst e = src \<and> target_key (snd (snd e)) = Some k) es)"

definition after_last_dot :: "string \<Rightarrow> string" where
  \<comment> \<open>the substring after the last \<^verbatim>\<open>.\<close> (the whole string when it has none)\<close>
  "after_last_dot s = rev (takeWhile (\<lambda>c. c \<noteq> CHR ''.'') (rev s))"

definition saved_files :: "event list \<Rightarrow> string list" where
  "saved_files evs = concat (map (\<lambda>ev. case ev of SaveFig f \<Rightarrow> [f] | _ \<Rightarrow> []) evs)"

definition parse_entry :: "visualizer \<Rightarrow> string \<times> string \<times> json \<Rightarrow> error + visualizer" where
  \<comment> \<open>the innermost loop body, on one triple of \<open>connection_entries\<close>\<close>
  "parse_entry vis e = parse_connection (fst e) (fst (snd e)) vis (snd (snd e))"

definition stored_coord :: "(string \<times> json) list \<Rightarrow> coord option" where
  \<comment> \<open>the coordinate the node loop stores for a record, if any\<close>
  "stored_coord nd =
     (case map_of nd ''position'' of
        None \<Rightarrow> None
      | Some p \<Rightarrow>
          (case py_len p of
             Inr n \<Rightarrow>
               if n \<ge> 2 then
                 (case (py_index p 0, py_index p 1) of
                    (Inr x, Inr y) \<Rightarrow> (case py_neg y of Inr ny \<Rightarrow> Some (Coord x ny) | Inl _ \<Rightarrow> None)
                  | _ \<Rightarrow> None)
               else None
           | Inl _ \<Rightarrow> None))"

definition stored_attrs :: "(string \<times> json) list \<Rightarrow> string \<Rightarrow> attrs" where
  \<comment> \<open>the attributes the node loop gives the vertex of a record of type \<open>t\<close>\<close>
  "stored_attrs nd t =
     \<lparr>label = dict_get nd ''name'' (JStr (last_segment t)), ntype = t,
      parameters = dict_get nd ''parameters'' (JObj [])\<rparr>"

definition draw_steps :: "library \<Rightarrow> visualizer \<Rightarrow> (key \<times> coord) list \<Rightarrow> unit io list" where
  \<comment> \<open>the drawing calls of \<^verbatim>\<open>draw\<close> after the layout and before saving\<close>
  "draw_steps lib vis p =
      [call lib p Figure,
       draw_networkx_edges lib (graph vis) p,
       io_for (draw_node lib p) (g_nodes (graph vis)),
       io_bind (lift (node_labels (graph vis))) (draw_networkx_labels lib p),
       draw_networkx_edge_labels lib p (edges_view (graph vis)),
       io_bind (lift (workflow_name vis)) (\<lambda>name. call lib p (Title name)),
       call lib p AxisOff,
       call lib p TightLayout]"

definition draw_finish ::
  "library \<Rightarrow> (key \<times> coord) list \<Rightarrow> string option \<Rightarrow> bool \<Rightarrow> unit io list" where
  \<comment> \<open>the last two statements of \<^verbatim>\<open>draw\<close>\<close>
  "draw_finish lib p output_file show =
      [save lib p output_file, if show then call lib p Show else call lib p Close]"

definition drawn_pos :: "visualizer \<Rightarrow> (key \<times> coord) list" where
  \<comment> \<open>the position map \<^verbatim>\<open>draw\<close> works with\<close>
  "drawn_pos vis = (if pos vis = [] then spring_layout (graph vis) else pos vis)"

definition silent :: library where
  \<comment> \<open>a library that raises on missing positions only\<close>
  "silent p ev = None"

definition strict :: library where
  \<comment> \<open>a library that raises ValueError when it draws a vertex whose first coordinate is
      a list, and OverflowError when the second is beyond the floating-point range\<close>
  "strict p ev =
     (case ev of
        DrawNode k c \<Rightarrow>
          (case map_of p k of
             Some (Coord (JArr xs) y) \<Rightarrow> Some ValueError
           | Some (Coord x (JInt n)) \<Rightarrow>
               if \<bar>n\<bar> < 2 ^ 1024 - 2 ^ 970 then None else Some OverflowError
           | _ \<Rightarrow> None)
      | _ \<Rightarrow> None)"

section \<open>Example documents\<close>

definition roundtrip_doc :: json where
  \<comment> \<open>\<^verbatim>\<open>{"name":"T","nodes":[{"id":"1","type":"n8n-nodes-base.start","position":[0,0]},
      {"id":"2","type":"n8n-nodes-base.set","name":"SetX"}],
      "connections":{"1":{"main":[[{"node":"2"}]]}}}\<close>\<close>
  "roundtrip_doc =
     JObj [(''name'', JStr ''T''),
           (''nodes'', JArr
              [JObj [(''id'', JStr ''1''), (''type'', JStr ''n8n-nodes-base.start''),
                     (''position'', JArr [JInt 0, JInt 0])],
               JObj [(''id'', JStr ''2''), (''type'', JStr ''n8n-nodes-base.set''),
                     (''name'', JStr ''SetX'')]]),
           (''connections'', JObj
              [(''1'', JObj [(''main'', JArr [JArr [JObj [(''node'', JStr ''2'')]]])])])]"

definition no_nodes_doc :: json where
  "no_nodes_doc = JObj [(''name'', JStr ''T'')]"

definition missing_type_doc :: json where
  "missing_type_doc =
     JObj [(''nodes'', JArr
              [JObj [(''id'', JStr ''1''), (''type'', JStr ''n8n-nodes-base.start'')],
               JObj [(''id'', JStr ''2'')]])]"

definition two_categories_doc :: json where
  "two_categories_doc =
     JObj [(''nodes'', JArr
              [JObj [(''id'', JStr ''1''), (''type'', JStr ''n8n-nodes-base.if'')],
               JObj [(''id'', JStr ''2''), (''type'', JStr ''n8n-nodes-base.set'')]]),
           (''connections'', JObj
              [(''1'', JObj [(''main'', JArr [JObj [(''node'', JStr ''2'')]]),
                             (''error'', JArr [JObj [(''node'', JStr ''2'')]])])])]"

definition flat_doc :: json where
  "flat_doc =
     JObj [(''name'', JStr ''T''),
           (''nodes'', JArr
              [JObj [(''id'', JStr ''1''), (''type'', JStr ''n8n-nodes-base.start''),
                     (''position'', JArr [JInt 250, JInt 300])],
               JObj [(''id'', JStr ''2''), (''type'', JStr ''n8n-nodes-base.set''),
                     (''name'', JStr ''SetX'')]]),
           (''connections'', JObj
              [(''1'', JObj [(''main'', JArr [JObj [(''node'', JStr ''2'')]])])])]"

definition missing_type_first :: visualizer where
  "missing_type_first =
     \<lparr>workflow = missing_type_doc,
      graph = \<lparr>g_nodes = [(KStr ''1'', Some \<lparr>label = JStr ''start'',
                  ntype = ''n8n-nodes-base.start'', parameters = JObj []\<rparr>)], g_edges = []\<rparr>,
      pos = []\<rparr>"

definition flat_result :: visualizer where
  "flat_result =
     \<lparr>workflow = flat_doc,
      graph = \<lparr>g_nodes =
                 [(KStr ''1'', Some \<lparr>label = JStr ''start'', ntype = ''n8n-nodes-base.start'',
                                      parameters = JObj []\<rparr>),
                  (KStr ''2'', Some \<lparr>label = JStr ''SetX'', ntype = ''n8n-nodes-base.set'',
                                      parameters = JObj []\<rparr>)],
               g_edges = [((KStr ''1'', KStr ''2''), ''main'')]\<rparr>,
      pos = [(KStr ''1'', Coord (JInt 250) (JInt (- 300)))]\<rparr>"

definition short_position_doc :: json where
  "short_position_doc =
     JObj [(''nodes'', JArr
              [JObj [(''id'', JStr ''1''), (''type'', JStr ''n8n-nodes-base.set''),
                     (''position'', JArr [JInt 5])]])]"

definition short_position_result :: visualizer where
  "short_position_result =
     \<lparr>workflow = short_position_doc,
      graph = \<lparr>g_nodes = [(KStr ''1'', Some \<lparr>label = JStr ''set'',
                  ntype = ''n8n-nodes-base.set'', parameters = JObj []\<rparr>)], g_edges = []\<rparr>,
      pos = []\<rparr>"

definition long_label_doc :: json where
  "long_label_doc =
     JObj [(''nodes'', JArr
              [JObj [(''id'', JStr ''1''), (''type'', JStr ''n8n-nodes-base.set''),
                     (''name'', JStr ''Send weekly report email'')]])]"

definition nested_position_doc :: json where
  "nested_position_doc =
     JObj [(''nodes'', JArr
              [JObj [(''id'', JStr ''1''), (''type'', JStr ''n8n-nodes-base.start''),
                     (''position'', JArr [JArr [JInt 1, JInt 2], JInt 3])],
               JObj [(''id'', JStr ''2''), (''type'', JStr ''n8n-nodes-base.set'')]])]"

definition nested_position_result :: visualizer where
  "nested_position_result =
     \<lparr>workflow = nested_position_doc,
      graph = \<lparr>g_nodes =
                 [(KStr ''1'', Some \<lparr>label = JStr ''start'', ntype = ''n8n-nodes-base.start'',
                                      parameters = JObj []\<rparr>),
                  (KStr ''2'', Some \<lparr>label = JStr ''set'', ntype = ''n8n-nodes-base.set'',
                                      parameters = JObj []\<rparr>)],
               g_edges = []\<rparr>,
      pos = [(KStr ''1'', Coord (JArr [JInt 1, JInt 2]) (JInt (- 3)))]\<rparr>"

definition long_label_result :: visualizer where
  "long_label_result =
     \<lparr>workflow = long_label_doc,
      graph = \<lparr>g_nodes =
                 [(KStr ''1'', Some \<lparr>label = JStr ''Send weekly report email'',
                                      ntype = ''n8n-nodes-base.set'', parameters = JObj []\<rparr>)],
               g_edges = []\<rparr>,
      pos = []\<rparr>"

definition example_env :: env where
  "example_env =
     \<lparr>fs = (\<lambda>path. if path = ''flow.json'' \<or> path = ''runs/flow.json''
                    then Some (Inr short_position_doc)
                    else if path = ''bad.json'' then Some (Inl JSONDecodeError)
                    else None),
      msg = (\<lambda>e. ''invalid document''),
      plt = silent\<rparr>"

section \<open>Lemmas about the parser\<close>

lemma bind_Inl [simp]: "bind (Inl e) f = Inl e"
  by (simp add: bind_def)

lemma bind_Inr [simp]: "bind (Inr x) f = f x"
  by (simp add: bind_def)

lemma bind_eq_Inr: "bind m f = Inr y \<longleftrightarrow> (\<exists>x. m = Inr x \<and> f x = Inr y)"
  by (cases m) simp_all

lemma for_each_append:
  "for_each body s (xs @ ys) = bind (for_each body s xs) (\<lambda>s'. for_each body s' ys)"
  by (induction xs arbitrary: s) (auto split: sum.splits)

lemma for_each_map:
  "for_each body s (map h xs) = for_each (\<lambda>s x. body s (h x)) s xs"
  by (induction xs arbitrary: s) (auto split: sum.splits)

lemma for_each_concat:
  assumes "\<And>s x s'. x \<in> set xs \<Longrightarrow> f s x = Inr s' \<Longrightarrow> for_each g s (h x) = Inr s'"
    and "for_each f s xs = Inr s'"
  shows "for_each g s (concat (map h xs)) = Inr s'"
  using assms
proof (induction xs arbitrary: s)
  case Nil
  then show ?case by simp
next
  case (Cons x xs)
  from Cons.prems(2) obtain s1 where s1: "f s x = Inr s1" "for_each f s1 xs = Inr s'"
    by (auto split: sum.splits)
  have "for_each g s (h x) = Inr s1" using Cons.prems(1) s1(1) by simp
  moreover have "for_each g s1 (concat (map h xs)) = Inr s'"
    using Cons.IH Cons.prems(1) s1(2) by simp
  ultimately show ?case by (simp add: for_each_append)
qed

lemma parse_category_entries:
  assumes "parse_category src vis entry = Inr vis'"
  shows "for_each parse_entry vis (category_entries src entry) = Inr vis'"
proof -
  from assms obtain cl where cl: "py_iter (snd entry) = Inr cl"
    and run: "for_each (parse_connection src (fst entry)) vis cl = Inr vis'"
    by (auto simp: parse_category_def bind_eq_Inr)
  have "for_each parse_entry vis (map (\<lambda>c. (src, fst entry, c)) cl)
          = for_each (parse_connection src (fst entry)) vis cl"
    by (simp add: for_each_map parse_entry_def)
  then show ?thesis using cl run by (simp add: category_entries_def)
qed

lemma parse_source_entries:
  assumes "parse_source vis entry = Inr vis'"
  shows "for_each parse_entry vis (source_entries entry) = Inr vis'"
proof -
  from assms obtain cats where cats: "py_items (snd entry) = Inr cats"
    and run: "for_each (parse_category (fst entry)) vis cats = Inr vis'"
    by (auto simp: parse_source_def bind_eq_Inr)
  have "for_each parse_entry vis (concat (map (category_entries (fst entry)) cats)) = Inr vis'"
    by (rule for_each_concat [OF _ run]) (rule parse_category_entries)
  then show ?thesis using cats by (simp add: source_entries_def)
qed

lemma parse_workflow_phases:
  assumes "parse_workflow vis = Inr vis'" and "workflow vis = JObj w"
  shows "\<exists>ns vis1. py_iter (dict_get w ''nodes'' (JArr [])) = Inr ns
           \<and> for_each parse_node vis ns = Inr vis1
           \<and> for_each parse_entry vis1 (connection_entries (JObj w)) = Inr vis'"
proof -
  from assms obtain ns vis1 conns where ns: "py_iter (dict_get w ''nodes'' (JArr [])) = Inr ns"
    and n: "for_each parse_node vis ns = Inr vis1"
    and c: "py_items (dict_get w ''connections'' (JObj [])) = Inr conns"
    and run: "for_each parse_source vis1 conns = Inr vis'"
    by (auto simp: parse_workflow_def bind_eq_Inr)
  have "for_each parse_entry vis1 (concat (map source_entries conns)) = Inr vis'"
    by (rule for_each_concat [OF _ run]) (rule parse_source_entries)
  then show ?thesis using ns n c by (auto simp: connection_entries_def)
qed

lemma ensure_node_edges [simp]: "g_edges (ensure_node k g) = g_edges g"
  by (simp add: ensure_node_def)

lemma parse_entry_Inr:
  assumes "parse_entry vis e = Inr vis'"
  shows "\<exists>kt. target_key (snd (snd e)) = Some kt
           \<and> g_nodes (graph vis') = g_nodes (ensure_node kt (ensure_node (KStr (fst e)) (graph vis)))
           \<and> g_edges (graph vis') = AList.update (KStr (fst e), kt) (fst (snd e)) (g_edges (graph vis))
           \<and> pos vis' = pos vis \<and> workflow vis' = workflow vis"
  using assms
  by (auto simp: parse_entry_def parse_connection_def add_edge_def bind_eq_Inr target_key_def
        key_of_def Let_def)

lemma py_getitem_Inr: "py_getitem obj k = Inr v \<longleftrightarrow> (\<exists>d. obj = JObj d \<and> map_of d k = Some v)"
  by (auto simp: py_getitem_def split: json.splits option.splits)

lemma parse_node_pos:
  assumes "(case map_of nd ''position'' of
              None \<Rightarrow> Inr (vis\<lparr>graph := g\<rparr>)
            | Some p \<Rightarrow>
                bind (py_len p) (\<lambda>n.
                if n \<ge> 2 then
                  bind (py_index p 0) (\<lambda>x.
                  bind (py_index p 1) (\<lambda>y.
                  bind (py_neg y) (\<lambda>ny.
                  bind (key_of i) (\<lambda>k.
                  Inr (vis\<lparr>graph := g, pos := AList.update k (Coord x ny) (pos vis)\<rparr>)))))
                else Inr (vis\<lparr>graph := g\<rparr>))) = Inr vis'"
    and "key_of i = Inr k"
  shows "graph vis' = g \<and> workflow vis' = workflow vis
       \<and> pos vis' = (case stored_coord nd of None \<Rightarrow> pos vis | Some c \<Rightarrow> AList.update k c (pos vis))"
proof (cases "map_of nd ''position''")
  case None
  then show ?thesis using assms by (auto simp: stored_coord_def)
next
  case (Some p)
  with assms obtain n where n: "py_len p = Inr n" by (auto simp: bind_eq_Inr)
  show ?thesis
  proof (cases "n \<ge> 2")
    case False
    then show ?thesis using assms Some n by (auto simp: stored_coord_def)
  next
    case True
    with assms Some n obtain x y ny where "py_index p 0 = Inr x" "py_index p 1 = Inr y"
      "py_neg y = Inr ny" "vis' = vis\<lparr>graph := g, pos := AList.update k (Coord x ny) (pos vis)\<rparr>"
      by (auto simp: bind_eq_Inr)
    then show ?thesis using True Some n by (simp add: stored_coord_def)
  qed
qed

lemma parse_node_Inr:
  assumes "parse_node vis node = Inr vis'"
  shows "\<exists>nd i k t. node = JObj nd \<and> map_of nd ''id'' = Some i \<and> key_of i = Inr k
           \<and> map_of nd ''type'' = Some (JStr t)
           \<and> g_nodes (graph vis') = AList.update k (Some (stored_attrs nd t)) (g_nodes (graph vis))
           \<and> g_edges (graph vis') = g_edges (graph vis)
           \<and> pos vis' = (case stored_coord nd of None \<Rightarrow> pos vis | Some c \<Rightarrow> AList.update k c (pos vis))
           \<and> workflow vis' = workflow vis"
proof -
  from assms obtain i ty where i: "py_getitem node ''id'' = Inr i"
    and ty: "py_getitem node ''type'' = Inr ty"
    by (auto simp: parse_node_def bind_eq_Inr)
  from i obtain nd where nd: "node = JObj nd" "map_of nd ''id'' = Some i"
    by (auto simp: py_getitem_Inr)
  from ty nd have ty': "map_of nd ''type'' = Some ty" by (simp add: py_getitem_Inr)
  from assms i ty nd obtain t where t: "ty = JStr t"
    by (cases ty) (simp_all add: parse_node_def)
  from assms i ty nd t obtain g where g: "add_node (graph vis) i (stored_attrs nd t) = Inr g"
    and rest: "(case map_of nd ''position'' of
              None \<Rightarrow> Inr (vis\<lparr>graph := g\<rparr>)
            | Some p \<Rightarrow>
                bind (py_len p) (\<lambda>n.
                if n \<ge> 2 then
                  bind (py_index p 0) (\<lambda>x.
                  bind (py_index p 1) (\<lambda>y.
                  bind (py_neg y) (\<lambda>ny.
                  bind (key_of i) (\<lambda>k.
                  Inr (vis\<lparr>graph := g, pos := AList.update k (Coord x ny) (pos vis)\<rparr>)))))
                else Inr (vis\<lparr>graph := g\<rparr>))) = Inr vis'"
    by (auto simp: parse_node_def bind_eq_Inr stored_attrs_def Let_def)
  from g obtain k where k: "key_of i = Inr k"
    and g': "g = (graph vis)\<lparr>g_nodes := AList.update k (Some (stored_attrs nd t)) (g_nodes (graph vis))\<rparr>"
    by (auto simp: add_node_def bind_eq_Inr)
  from parse_node_pos [OF rest k] g' nd ty' t k show ?thesis by auto
qed


lemma node_id_JObj: "map_of nd ''id'' = Some i \<Longrightarrow> key_of i = Inr k \<Longrightarrow> node_id (JObj nd) = Some k"
  by (simp add: node_id_def py_getitem_def)

lemma has_node_ensure [simp]: "has_node (ensure_node k g) k' \<longleftrightarrow> k' = k \<or> has_node g k'"
  by (auto simp: ensure_node_def has_node_def)

lemma ensure_node_present: "has_node g k \<Longrightarrow> ensure_node k g = g"
  by (simp add: ensure_node_def)

lemma map_of_ensure_node:
  "map_of (g_nodes g) k' = Some a \<Longrightarrow> map_of (g_nodes (ensure_node k g)) k' = Some a"
  by (simp add: ensure_node_def)

subsection \<open>The loop over the node records\<close>

lemma parse_nodes_other:
  assumes "for_each parse_node vis ns = Inr vis1" and "Some k \<notin> set (map node_id ns)"
  shows "map_of (g_nodes (graph vis1)) k = map_of (g_nodes (graph vis)) k
       \<and> map_of (pos vis1) k = map_of (pos vis) k"
  using assms
proof (induction ns arbitrary: vis)
  case Nil
  then show ?case by simp
next
  case (Cons n ns)
  from Cons.prems(1) obtain v where v: "parse_node vis n = Inr v" "for_each parse_node v ns = Inr vis1"
    by (auto split: sum.splits)
  from parse_node_Inr [OF v(1)] obtain nd i k' t where n: "n = JObj nd" "map_of nd ''id'' = Some i"
    "key_of i = Inr k'"
    and gn: "g_nodes (graph v) = AList.update k' (Some (stored_attrs nd t)) (g_nodes (graph vis))"
    and ps: "pos v = (case stored_coord nd of None \<Rightarrow> pos vis | Some c \<Rightarrow> AList.update k' c (pos vis))"
    by blast
  from n have "node_id n = Some k'" by (simp add: node_id_JObj)
  with Cons.prems(2) have ne: "k' \<noteq> k" by auto
  have "map_of (g_nodes (graph v)) k = map_of (g_nodes (graph vis)) k"
    using gn ne by (simp add: update_conv')
  moreover have "map_of (pos v) k = map_of (pos vis) k"
    using ps ne by (simp add: update_conv' split: option.splits)
  moreover have "map_of (g_nodes (graph vis1)) k = map_of (g_nodes (graph v)) k
       \<and> map_of (pos vis1) k = map_of (pos v) k"
    using Cons.IH [OF v(2)] Cons.prems(2) by simp
  ultimately show ?case by simp
qed

lemma parse_nodes_stored:
  assumes "for_each parse_node vis ns = Inr vis1" and "distinct (map node_id ns)"
    and "JObj nd \<in> set ns" and "map_of nd ''id'' = Some i" and "key_of i = Inr k"
    and "map_of nd ''type'' = Some (JStr t)"
  shows "map_of (g_nodes (graph vis1)) k = Some (Some (stored_attrs nd t))
       \<and> map_of (pos vis1) k =
           (case stored_coord nd of None \<Rightarrow> map_of (pos vis) k | Some c \<Rightarrow> Some c)"
  using assms(1,2,3)
proof (induction ns arbitrary: vis)
  case Nil
  then show ?case by simp
next
  case (Cons n ns)
  from Cons.prems(1) obtain v where v: "parse_node vis n = Inr v" "for_each parse_node v ns = Inr vis1"
    by (auto split: sum.splits)
  have id: "node_id (JObj nd) = Some k" using assms(4,5) by (rule node_id_JObj)
  show ?case
  proof (cases "n = JObj nd")
    case True
    from parse_node_Inr [OF v(1)] True assms(4,5,6)
    have gn: "g_nodes (graph v) = AList.update k (Some (stored_attrs nd t)) (g_nodes (graph vis))"
      and ps: "pos v = (case stored_coord nd of None \<Rightarrow> pos vis | Some c \<Rightarrow> AList.update k c (pos vis))"
      by auto
    from Cons.prems(2) True id have "Some k \<notin> set (map node_id ns)" by auto
    from parse_nodes_other [OF v(2) this]
    have "map_of (g_nodes (graph vis1)) k = map_of (g_nodes (graph v)) k"
      and "map_of (pos vis1) k = map_of (pos v) k" by simp_all
    then show ?thesis using gn ps by (simp add: update_conv' split: option.splits)
  next
    case False
    with Cons.prems(3) have mem: "JObj nd \<in> set ns" by simp
    from Cons.prems(2) have d: "distinct (map node_id ns)" and "node_id n \<notin> set (map node_id ns)"
      by simp_all
    with mem id have nk: "node_id n \<noteq> Some k" by force
    from parse_node_Inr [OF v(1)] obtain nd' i' k' where n: "n = JObj nd'" "map_of nd' ''id'' = Some i'"
      "key_of i' = Inr k'"
      and ps: "pos v = (case stored_coord nd' of None \<Rightarrow> pos vis | Some c \<Rightarrow> AList.update k' c (pos vis))"
      by blast
    from n nk have "k' \<noteq> k" by (simp add: node_id_JObj)
    then have "map_of (pos v) k = map_of (pos vis) k"
      using ps by (simp add: update_conv' split: option.splits)
    then show ?thesis using Cons.IH [OF v(2) d mem] by (simp split: option.splits)
  qed
qed

lemma parse_nodes_keys:
  assumes "for_each parse_node vis ns = Inr vis1" and "distinct (map node_id ns)"
    and "\<forall>k. Some k \<in> set (map node_id ns) \<longrightarrow> \<not> has_node (graph vis) k"
  shows "map Some (map fst (g_nodes (graph vis1)))
           = map Some (map fst (g_nodes (graph vis))) @ map node_id ns"
  using assms
proof (induction ns arbitrary: vis)
  case Nil
  then show ?case by simp
next
  case (Cons n ns)
  from Cons.prems(1) obtain v where v: "parse_node vis n = Inr v" "for_each parse_node v ns = Inr vis1"
    by (auto split: sum.splits)
  from parse_node_Inr [OF v(1)] obtain nd i k t where n: "n = JObj nd" "map_of nd ''id'' = Some i"
    "key_of i = Inr k"
    and gn: "g_nodes (graph v) = AList.update k (Some (stored_attrs nd t)) (g_nodes (graph vis))"
    by blast
  from n have id: "node_id n = Some k" by (simp add: node_id_JObj)
  with Cons.prems(3) have fresh: "k \<notin> fst ` set (g_nodes (graph vis))"
    by (simp add: has_node_def)
  then have keys: "map fst (g_nodes (graph v)) = map fst (g_nodes (graph vis)) @ [k]"
    using gn by (simp add: update_keys)
  have ks: "fst ` set (g_nodes (graph v)) = insert k (fst ` set (g_nodes (graph vis)))"
    using arg_cong [OF keys, of set] by simp
  have "\<forall>k'. Some k' \<in> set (map node_id ns) \<longrightarrow> \<not> has_node (graph v) k'"
  proof (intro allI impI)
    fix k' assume a: "Some k' \<in> set (map node_id ns)"
    with Cons.prems(2) id have "k' \<noteq> k" by auto
    moreover from a Cons.prems(3) have "\<not> has_node (graph vis) k'" by simp
    ultimately show "\<not> has_node (graph v) k'" using ks by (simp add: has_node_def)
  qed
  with Cons.IH [OF v(2)] Cons.prems(2)
  have "map Some (map fst (g_nodes (graph vis1))) = map Some (map fst (g_nodes (graph v))) @ map node_id ns"
    by simp
  then show ?case using keys id by simp
qed

subsection \<open>The loops over the connections\<close>

lemma parse_entries_pos:
  "for_each parse_entry vis es = Inr vis' \<Longrightarrow> pos vis' = pos vis \<and> workflow vis' = workflow vis"
proof (induction es arbitrary: vis)
  case Nil
  then show ?case by simp
next
  case (Cons e es)
  from Cons.prems obtain v where v: "parse_entry vis e = Inr v" "for_each parse_entry v es = Inr vis'"
    by (auto split: sum.splits)
  from parse_entry_Inr [OF v(1)] Cons.IH [OF v(2)] show ?case by auto
qed

lemma parse_entries_targets:
  "for_each parse_entry vis es = Inr vis' \<Longrightarrow> e \<in> set es \<Longrightarrow> \<exists>k. target_key (snd (snd e)) = Some k"
proof (induction es arbitrary: vis)
  case Nil
  then show ?case by simp
next
  case (Cons x es)
  from Cons.prems(1) obtain v where v: "parse_entry vis x = Inr v" "for_each parse_entry v es = Inr vis'"
    by (auto split: sum.splits)
  show ?case
  proof (cases "e = x")
    case True
    then show ?thesis using parse_entry_Inr [OF v(1)] by blast
  next
    case False
    then show ?thesis using Cons.IH [OF v(2)] Cons.prems(2) by simp
  qed
qed

lemma parse_entries_attrs:
  "for_each parse_entry vis es = Inr vis' \<Longrightarrow> map_of (g_nodes (graph vis)) k = Some a
     \<Longrightarrow> map_of (g_nodes (graph vis')) k = Some a"
proof (induction es arbitrary: vis)
  case Nil
  then show ?case by simp
next
  case (Cons e es)
  from Cons.prems(1) obtain v where v: "parse_entry vis e = Inr v" "for_each parse_entry v es = Inr vis'"
    by (auto split: sum.splits)
  from parse_entry_Inr [OF v(1)] obtain kt where
    "g_nodes (graph v) = g_nodes (ensure_node kt (ensure_node (KStr (fst e)) (graph vis)))"
    by blast
  then have "map_of (g_nodes (graph v)) k = Some a"
    using Cons.prems(2) by (simp add: map_of_ensure_node)
  then show ?case using Cons.IH [OF v(2)] by simp
qed

lemma parse_entries_has_node:
  "for_each parse_entry vis es = Inr vis' \<Longrightarrow> has_node (graph vis) k \<Longrightarrow> has_node (graph vis') k"
proof (induction es arbitrary: vis)
  case Nil
  then show ?case by simp
next
  case (Cons e es)
  from Cons.prems(1) obtain v where v: "parse_entry vis e = Inr v" "for_each parse_entry v es = Inr vis'"
    by (auto split: sum.splits)
  from parse_entry_Inr [OF v(1)] obtain kt where
    "g_nodes (graph v) = g_nodes (ensure_node kt (ensure_node (KStr (fst e)) (graph vis)))"
    by blast
  then have "has_node (graph v) k"
    using Cons.prems(2) has_node_ensure by (simp add: has_node_def)
  then show ?case using Cons.IH [OF v(2)] by simp
qed

lemma parse_entries_endpoints:
  assumes "for_each parse_entry vis es = Inr vis'" and "e \<in> set es"
    and "target_key (snd (snd e)) = Some k"
  shows "has_node (graph vis') (KStr (fst e)) \<and> has_node (graph vis') k"
  using assms
proof (induction es arbitrary: vis)
  case Nil
  then show ?case by simp
next
  case (Cons x es)
  from Cons.prems(1) obtain v where v: "parse_entry vis x = Inr v" "for_each parse_entry v es = Inr vis'"
    by (auto split: sum.splits)
  show ?case
  proof (cases "e = x")
    case True
    from parse_entry_Inr [OF v(1)] True Cons.prems(3)
    have "g_nodes (graph v) = g_nodes (ensure_node k (ensure_node (KStr (fst e)) (graph vis)))"
      by auto
    then have "has_node (graph v) (KStr (fst e)) \<and> has_node (graph v) k"
      using has_node_ensure by (simp add: has_node_def)
    then show ?thesis using parse_entries_has_node [OF v(2)] by blast
  next
    case False
    then show ?thesis using Cons.IH [OF v(2)] Cons.prems(2,3) by simp
  qed
qed

lemma parse_entries_no_new_nodes:
  assumes "for_each parse_entry vis es = Inr vis'"
    and "\<forall>e \<in> set es. has_node (graph vis) (KStr (fst e))
            \<and> (\<forall>k. target_key (snd (snd e)) = Some k \<longrightarrow> has_node (graph vis) k)"
  shows "g_nodes (graph vis') = g_nodes (graph vis)"
  using assms
proof (induction es arbitrary: vis)
  case Nil
  then show ?case by simp
next
  case (Cons e es)
  from Cons.prems(1) obtain v where v: "parse_entry vis e = Inr v" "for_each parse_entry v es = Inr vis'"
    by (auto split: sum.splits)
  from parse_entry_Inr [OF v(1)] obtain kt where kt: "target_key (snd (snd e)) = Some kt"
    and gn: "g_nodes (graph v) = g_nodes (ensure_node kt (ensure_node (KStr (fst e)) (graph vis)))"
    by blast
  from Cons.prems(2) kt have "has_node (graph vis) (KStr (fst e))" "has_node (graph vis) kt"
    by simp_all
  then have same: "g_nodes (graph v) = g_nodes (graph vis)"
    using gn by (simp add: ensure_node_present)
  then have "\<forall>e \<in> set es. has_node (graph v) (KStr (fst e))
            \<and> (\<forall>k. target_key (snd (snd e)) = Some k \<longrightarrow> has_node (graph v) k)"
    using Cons.prems(2) by (simp add: has_node_def)
  from Cons.IH [OF v(2) this] same show ?case by simp
qed

lemma parse_entries_edges:
  assumes "for_each parse_entry vis es = Inr vis'"
  shows "map_of (g_edges (graph vis')) (KStr src, k) =
           (case categories_for es src k of
              [] \<Rightarrow> map_of (g_edges (graph vis)) (KStr src, k)
            | c # cs \<Rightarrow> Some (last (c # cs)))"
  using assms
proof (induction es arbitrary: vis)
  case Nil
  then show ?case by (simp add: categories_for_def)
next
  case (Cons e es)
  from Cons.prems(1) obtain v where v: "parse_entry vis e = Inr v" "for_each parse_entry v es = Inr vis'"
    by (auto split: sum.splits)
  from parse_entry_Inr [OF v(1)] obtain kt where kt: "target_key (snd (snd e)) = Some kt"
    and ge: "g_edges (graph v) = AList.update (KStr (fst e), kt) (fst (snd e)) (g_edges (graph vis))"
    by blast
  have step: "map_of (g_edges (graph v)) (KStr src, k) =
          (if fst e = src \<and> kt = k then Some (fst (snd e)) else map_of (g_edges (graph vis)) (KStr src, k))"
    using ge by (auto simp: update_conv')
  have cats: "categories_for (e # es) src k =
          (if fst e = src \<and> kt = k then fst (snd e) # categories_for es src k else categories_for es src k)"
    using kt by (auto simp: categories_for_def)
  show ?case
    using Cons.IH [OF v(2)] step cats by (auto split: list.splits)
qed

lemma split_on_nonempty [simp]: "split_on c s \<noteq> []"
  by (induction s) (auto split: list.splits)

lemma split_on_no_sep: "c \<notin> set s \<Longrightarrow> split_on c s = [s]"
  by (induction s) auto

lemma split_on_sep: "c \<in> set s \<Longrightarrow> \<exists>w ws. split_on c s = w # ws \<and> ws \<noteq> []"
  by (induction s) (auto split: list.splits)

lemma last_split_on: "last (split_on c s) = rev (takeWhile (\<lambda>x. x \<noteq> c) (rev s))"
proof (induction s)
  case Nil
  then show ?case by simp
next
  case (Cons x xs)
  show ?case
  proof (cases "x = c")
    case True
    have "takeWhile (\<lambda>x. x \<noteq> c) (rev xs @ [c]) = takeWhile (\<lambda>x. x \<noteq> c) (rev xs)"
      by (simp add: takeWhile_tail)
    then show ?thesis using True Cons.IH by simp
  next
    case False
    show ?thesis
    proof (cases "c \<in> set xs")
      case True
      from split_on_sep [OF True] obtain w ws where ws: "split_on c xs = w # ws" "ws \<noteq> []"
        by blast
      have "takeWhile (\<lambda>x. x \<noteq> c) (rev xs @ [x]) = takeWhile (\<lambda>x. x \<noteq> c) (rev xs)"
        using True by (intro takeWhile_append1 [of c]) auto
      then show ?thesis using False ws Cons.IH by simp
    next
      case nosep: False
      then have "takeWhile (\<lambda>x. x \<noteq> c) (rev xs @ [x]) = rev xs @ takeWhile (\<lambda>x. x \<noteq> c) [x]"
        by (intro takeWhile_append2) auto
      then have "rev (takeWhile (\<lambda>x. x \<noteq> c) (rev (x # xs))) = rev (rev xs @ takeWhile (\<lambda>x. x \<noteq> c) [x])"
        by (simp only: rev.simps)
      also have "\<dots> = x # xs" using False by simp
      finally have "rev (takeWhile (\<lambda>x. x \<noteq> c) (rev (x # xs))) = x # xs" .
      moreover have "last (split_on c (x # xs)) = x # xs"
        using False nosep by (simp add: split_on_no_sep)
      ultimately show ?thesis by (simp only:)
    qed
  qed
qed

lemma last_segment_after_last_dot: "last_segment s = after_last_dot s"
  by (simp add: last_segment_def after_last_dot_def last_split_on)

lemma for_each_fails:
  assumes "\<And>s. \<exists>e. body s x = Inl e"
  shows "\<exists>e. for_each body s (pre @ x # post) = Inl e"
proof (cases "for_each body s pre")
  case (Inl e)
  then show ?thesis by (simp add: for_each_append)
next
  case (Inr s')
  from assms obtain e where "body s' x = Inl e" by blast
  then show ?thesis using Inr by (simp add: for_each_append)
qed

lemma parse_node_missing_key:
  assumes "map_of nd ''id'' = None \<or> map_of nd ''type'' = None"
  shows "parse_node vis (JObj nd)
           = Inl (KeyError (KStr (if map_of nd ''id'' = None then ''id'' else ''type'')))"
  using assms by (auto simp: parse_node_def py_getitem_def)

lemma parse_workflow_fresh:
  assumes "parse_workflow (WorkflowVisualizer doc) = Inr vis'"
  shows "\<exists>w ns vis1. doc = JObj w \<and> py_iter (dict_get w ''nodes'' (JArr [])) = Inr ns
           \<and> for_each parse_node (WorkflowVisualizer doc) ns = Inr vis1
           \<and> for_each parse_entry vis1 (connection_entries doc) = Inr vis'"
proof -
  from assms obtain w where w: "doc = JObj w"
    by (cases doc) (simp_all add: parse_workflow_def WorkflowVisualizer_def)
  then have "workflow (WorkflowVisualizer doc) = JObj w" by (simp add: WorkflowVisualizer_def)
  from parse_workflow_phases [OF assms this] w show ?thesis by blast
qed

lemma parse_nodes_wf:
  "for_each parse_node vis ns = Inr vis1 \<Longrightarrow> n \<in> set ns \<Longrightarrow>
     \<exists>nd i k t. n = JObj nd \<and> map_of nd ''id'' = Some i \<and> key_of i = Inr k
        \<and> map_of nd ''type'' = Some (JStr t)"
proof (induction ns arbitrary: vis)
  case Nil
  then show ?case by simp
next
  case (Cons x ns)
  from Cons.prems(1) obtain v where v: "parse_node vis x = Inr v" "for_each parse_node v ns = Inr vis1"
    by (auto split: sum.splits)
  show ?case
  proof (cases "n = x")
    case True
    then show ?thesis using parse_node_Inr [OF v(1)] by blast
  next
    case False
    then show ?thesis using Cons.IH [OF v(2)] Cons.prems(2) by simp
  qed
qed

lemma node_id_Some:
  "node_id (JObj nd) = Some k \<Longrightarrow> \<exists>i. map_of nd ''id'' = Some i \<and> key_of i = Inr k"
  by (auto simp: node_id_def py_getitem_def split: option.splits sum.splits)

lemma WorkflowVisualizer_simps [simp]:
  "workflow (WorkflowVisualizer d) = d"
  "g_nodes (graph (WorkflowVisualizer d)) = []"
  "g_edges (graph (WorkflowVisualizer d)) = []"
  "pos (WorkflowVisualizer d) = []"
  by (simp_all add: WorkflowVisualizer_def empty_graph_def)

section \<open>Lemmas about drawing\<close>

lemma io_bind_Inl: "io_bind (evs, Inl e) f = (evs, Inl e)"
  by (simp add: io_bind_def)

lemma io_bind_Inr: "io_bind (evs, Inr x) f = (evs @ fst (f x), snd (f x))"
  by (simp add: io_bind_def split: prod.splits)

lemma io_then_Inl: "io_then (evs, Inl e) n = (evs, Inl e)"
  by (simp add: io_then_def io_bind_Inl)

lemma io_then_Inr: "io_then (evs, Inr x) n = (evs @ fst n, snd n)"
  by (simp add: io_then_def io_bind_Inr)

lemma io_then_fail: "snd m = Inl e \<Longrightarrow> io_then m n = (fst m, Inl e)"
  by (cases m) (simp add: io_then_Inl)

lemma io_then_ok: "snd m = Inr x \<Longrightarrow> io_then m n = (fst m @ fst n, snd n)"
  by (cases m) (simp add: io_then_Inr)

lemma io_seq_append: "io_seq (xs @ ys) = io_then (io_seq xs) (io_seq ys)"
proof (induction xs)
  case Nil
  then show ?case by (simp add: io_skip_def io_then_Inr)
next
  case (Cons m xs)
  obtain evs r where m: "m = (evs, r)" by (cases m)
  show ?case
  proof (cases r)
    case (Inl e)
    then show ?thesis using m by (simp add: io_then_Inl)
  next
    case (Inr u)
    obtain evs' r' where s: "io_seq xs = (evs', r')" by (cases "io_seq xs")
    show ?thesis
    proof (cases r')
      case (Inl e)
      then show ?thesis using m Inr s Cons.IH by (simp add: io_then_Inl io_then_Inr)
    next
      case inr: (Inr u')
      then show ?thesis using m Inr s Cons.IH by (simp add: io_then_Inl io_then_Inr)
    qed
  qed
qed

lemma io_seq_result:
  "snd (io_seq (m # ms)) = (case snd m of Inl e \<Rightarrow> Inl e | Inr _ \<Rightarrow> snd (io_seq ms))"
proof (cases "snd m")
  case (Inl e)
  then show ?thesis by (simp add: io_then_fail)
next
  case (Inr x)
  then show ?thesis by (simp add: io_then_ok)
qed

lemma io_seq_fails:
  "m \<in> set ms \<Longrightarrow> snd m = Inl e \<Longrightarrow> \<exists>e'. snd (io_seq ms) = Inl e'"
proof (induction ms)
  case Nil
  then show ?case by simp
next
  case (Cons x xs)
  show ?case
  proof (cases "snd x")
    case (Inl e')
    have "snd (io_seq (x # xs)) = Inl e'" unfolding io_seq_result Inl by simp
    then show ?thesis by blast
  next
    case (Inr u)
    with Cons.prems have "m \<in> set xs" by auto
    with Cons.IH Cons.prems(2) obtain e' where e': "snd (io_seq xs) = Inl e'" by blast
    have "snd (io_seq (x # xs)) = Inl e'" unfolding io_seq_result Inr e' by simp
    then show ?thesis by blast
  qed
qed

lemma io_for_result:
  "snd (io_for body (x # xs)) = (case snd (body x) of Inl e \<Rightarrow> Inl e | Inr _ \<Rightarrow> snd (io_for body xs))"
proof (cases "snd (body x)")
  case (Inl e)
  then show ?thesis by (simp add: io_then_fail)
next
  case (Inr u)
  then show ?thesis by (simp add: io_then_ok)
qed

lemma io_then_events:
  assumes "\<forall>e \<in> set (fst m). P e" and "\<forall>e \<in> set (fst n). P e"
  shows "\<forall>e \<in> set (fst (io_then m n)). P e"
proof (cases "snd m")
  case (Inl e)
  then show ?thesis using assms(1) by (simp add: io_then_fail)
next
  case (Inr x)
  then show ?thesis using assms by (auto simp: io_then_ok)
qed

lemma io_bind_events:
  assumes "\<forall>e \<in> set (fst m). P e" and "\<And>x. snd m = Inr x \<Longrightarrow> \<forall>e \<in> set (fst (f x)). P e"
  shows "\<forall>e \<in> set (fst (io_bind m f)). P e"
proof -
  obtain evs r where m: "m = (evs, r)" by (cases m)
  show ?thesis
  proof (cases r)
    case (Inl e)
    then show ?thesis using m assms(1) by (simp add: io_bind_Inl)
  next
    case (Inr x)
    then show ?thesis using m assms(1) assms(2) [of x] by (auto simp: io_bind_Inr)
  qed
qed

lemma io_seq_Nil_events: "\<forall>e \<in> set (fst (io_seq [])). P e"
  by (simp add: io_skip_def)

lemma io_seq_Cons_events:
  "\<forall>e \<in> set (fst m). P e \<Longrightarrow> \<forall>e \<in> set (fst (io_seq ms)). P e
     \<Longrightarrow> \<forall>e \<in> set (fst (io_seq (m # ms))). P e"
  unfolding io_seq.simps by (rule io_then_events)

lemma io_for_events:
  assumes "\<And>x. \<forall>e \<in> set (fst (body x)). P e"
  shows "\<forall>e \<in> set (fst (io_for body xs)). P e"
proof (induction xs)
  case Nil
  then show ?case by (simp add: io_skip_def)
next
  case (Cons x xs)
  have "\<forall>e \<in> set (fst (io_then (body x) (io_for body xs))). P e"
    using assms [of x] Cons.IH by (rule io_then_events)
  then show ?case by (simp only: io_for.simps)
qed

lemma emit_events: "P ev \<Longrightarrow> \<forall>e \<in> set (fst (emit ev)). P e"
  by (simp add: emit_def)

lemma call_events: "P ev \<Longrightarrow> \<forall>e \<in> set (fst (call lib p ev)). P e"
  by (simp add: call_def emit_def io_fail_def split: option.splits)

lemma call_silent: "lib p ev = None \<Longrightarrow> call lib p ev = ([ev], Inr ())"
  by (simp add: call_def emit_def)

lemma call_result: "call lib p ev = (case lib p ev of Some e \<Rightarrow> ([], Inl e) | None \<Rightarrow> ([ev], Inr ()))"
  by (simp add: call_def emit_def io_fail_def split: option.splits)

lemma lift_events: "\<forall>e \<in> set (fst (lift r)). P e"
  by (simp add: lift_def)

lemma require_pos_events: "\<forall>e \<in> set (fst (require_pos p ks)). P e"
  by (simp add: require_pos_def io_fail_def io_skip_def split: option.splits)

lemma require_pos_result:
  "require_pos p ks = ([], Inr ())
     \<or> (\<exists>k. require_pos p ks = ([], Inl (KeyError k)) \<and> map_of p k = None)"
proof (cases "find (\<lambda>k. map_of p k = None) ks")
  case None
  then show ?thesis by (simp add: require_pos_def io_skip_def)
next
  case (Some k)
  then have "map_of p k = None" by (auto simp: find_Some_iff)
  then show ?thesis using Some by (simp add: require_pos_def io_fail_def)
qed

lemma draw_networkx_nodes_events:
  assumes "\<And>k c. P (DrawNode k c)"
  shows "\<forall>e \<in> set (fst (draw_networkx_nodes lib p k c)). P e"
proof (cases "map_of p k")
  case None
  then show ?thesis by (simp add: draw_networkx_nodes_def io_fail_def)
next
  case (Some a)
  then show ?thesis using call_events [of P "DrawNode k c" lib p] assms
    by (simp add: draw_networkx_nodes_def)
qed

lemma draw_node_events:
  assumes "\<And>k c. P (DrawNode k c)" and "\<And>k s. P (Text k s)"
  shows "\<forall>e \<in> set (fst (draw_node lib p n)). P e"
  unfolding draw_node_def Let_def
  by (intro io_then_events draw_networkx_nodes_events require_pos_events call_events assms)

lemma draw_steps_events:
  assumes "P Figure" and "\<And>es. P (DrawEdges es)" and "\<And>k c. P (DrawNode k c)"
    and "\<And>k s. P (Text k s)" and "\<And>ls. node_labels (graph vis) = Inr ls \<Longrightarrow> P (DrawLabels ls)"
    and "\<And>ls. P (DrawEdgeLabels ls)"
    and "\<And>n. P (Title n)" and "P AxisOff" and "P TightLayout"
  shows "\<forall>e \<in> set (fst (io_seq (draw_steps lib vis p))). P e"
proof -
  have 1: "\<forall>e \<in> set (fst (call lib p Figure)). P e" by (rule call_events) (rule assms)
  have 2: "\<forall>e \<in> set (fst (draw_networkx_edges lib (graph vis) p)). P e"
    unfolding draw_networkx_edges_def
    by (intro io_then_events require_pos_events call_events assms)
  have 3: "\<forall>e \<in> set (fst (io_for (draw_node lib p) (g_nodes (graph vis)))). P e"
    by (intro io_for_events draw_node_events assms)
  have 4: "\<forall>e \<in> set (fst (io_bind (lift (node_labels (graph vis))) (draw_networkx_labels lib p))). P e"
  proof (rule io_bind_events)
    show "\<forall>e \<in> set (fst (lift (node_labels (graph vis)))). P e" by (rule lift_events)
  next
    fix ls assume "snd (lift (node_labels (graph vis))) = Inr ls"
    then have "node_labels (graph vis) = Inr ls" by (simp add: lift_def)
    then have "P (DrawLabels ls)" by (rule assms(5))
    then show "\<forall>e \<in> set (fst (draw_networkx_labels lib p ls)). P e"
      unfolding draw_networkx_labels_def
      by (intro io_then_events require_pos_events call_events)
  qed
  have 5: "\<forall>e \<in> set (fst (draw_networkx_edge_labels lib p (edges_view (graph vis)))). P e"
    unfolding draw_networkx_edge_labels_def
    by (intro io_then_events require_pos_events call_events assms)
  have 6: "\<forall>e \<in> set (fst (io_bind (lift (workflow_name vis)) (\<lambda>name. call lib p (Title name)))). P e"
    by (intro io_bind_events lift_events call_events assms)
  have 7: "\<forall>e \<in> set (fst (call lib p AxisOff)). P e" by (rule call_events) (rule assms)
  have 8: "\<forall>e \<in> set (fst (call lib p TightLayout)). P e" by (rule call_events) (rule assms)
  show ?thesis
    unfolding draw_steps_def
    by (intro io_seq_Cons_events io_seq_Nil_events 1 2 3 4 5 6 7 8)
qed

lemma save_result:
  "save lib p output_file =
     (if truthy output_file
      then (case lib p (SaveFig (the output_file)) of
              Some e \<Rightarrow> ([], Inl e)
            | None \<Rightarrow> ([SaveFig (the output_file),
                        Print (''Workflow visualization saved to '' @ the output_file)], Inr ()))
      else ([], Inr ()))"
  by (cases output_file)
     (simp_all add: save_def truthy_def call_result emit_def io_skip_def io_then_Inr io_then_Inl
        split: option.splits)

lemma draw_finish_events:
  assumes "truthy output_file \<Longrightarrow> P (SaveFig (the output_file))" and "\<And>s. P (Print s)"
    and "P Show" and "P Close"
  shows "\<forall>e \<in> set (fst (io_seq (draw_finish lib p output_file show))). P e"
proof -
  have 1: "\<forall>e \<in> set (fst (save lib p output_file)). P e"
    using assms(1,2) by (simp add: save_result split: option.splits)
  have 2: "\<forall>e \<in> set (fst (if show then call lib p Show else call lib p Close)). P e"
    using assms(3,4) by (simp add: call_events)
  show ?thesis unfolding draw_finish_def
    by (intro io_seq_Cons_events io_seq_Nil_events 1 2)
qed

lemma layout_result:
  "layout vis = (if pos vis = [] then ([SpringLayout], Inr (spring_layout (graph vis)))
                 else ([], Inr (pos vis)))"
  by (simp add: layout_def emit_def lift_def io_then_Inr)

lemma draw_unfold:
  "draw lib vis output_file show =
     io_then (fst (layout vis), Inr ())
       (io_then (io_seq (draw_steps lib vis (drawn_pos vis)))
          (io_seq (draw_finish lib (drawn_pos vis) output_file show)))"
proof -
  have "\<And>p. io_then (io_seq (draw_steps lib vis p)) (io_seq (draw_finish lib p output_file show))
       = io_seq (draw_steps lib vis p @ draw_finish lib p output_file show)"
    by (simp only: io_seq_append)
  then show ?thesis
    by (simp add: draw_def draw_steps_def draw_finish_def layout_result drawn_pos_def
          io_bind_Inr io_then_Inr)
qed

lemma draw_events:
  assumes "pos vis = [] \<Longrightarrow> P SpringLayout"
    and "\<forall>e \<in> set (fst (io_seq (draw_steps lib vis (drawn_pos vis)))). P e"
    and "\<forall>e \<in> set (fst (io_seq (draw_finish lib (drawn_pos vis) output_file show))). P e"
  shows "\<forall>e \<in> set (fst (draw lib vis output_file show)). P e"
proof -
  have "\<forall>e \<in> set (fst (fst (layout vis), Inr ())). P e"
    using assms(1) by (simp add: layout_result)
  then show ?thesis unfolding draw_unfold
    by (intro io_then_events assms(2,3))
qed

subsection \<open>Failing on a missing position\<close>

lemma draw_node_missing:
  "map_of p (fst n) = None \<Longrightarrow> draw_node lib p n = ([], Inl NetworkXError)"
  by (simp add: draw_node_def draw_networkx_nodes_def Let_def io_fail_def io_then_Inl)

lemma draw_node_silent:
  assumes "\<forall>ev. lib p ev = None" and "map_of p (fst n) \<noteq> None"
  shows "snd (draw_node lib p n) = Inr ()"
proof -
  from assms(2) obtain c where c: "map_of p (fst n) = Some c" by auto
  then have "require_pos p [fst n] = ([], Inr ())" by (simp add: require_pos_def io_skip_def)
  then show ?thesis using c assms(1)
    by (simp add: draw_node_def draw_networkx_nodes_def Let_def call_silent io_then_Inr)
qed

lemma draw_nodes_fail:
  assumes "n \<in> set ns" and "map_of p (fst n) = None"
  shows "\<exists>e. snd (io_for (draw_node lib p) ns) = Inl e"
  using assms
proof (induction ns)
  case Nil
  then show ?case by simp
next
  case (Cons x xs)
  show ?case
  proof (cases "snd (draw_node lib p x)")
    case (Inl e)
    have "snd (io_for (draw_node lib p) (x # xs)) = Inl e" unfolding io_for_result Inl by simp
    then show ?thesis by blast
  next
    case (Inr u)
    have "map_of p (fst x) \<noteq> None"
    proof
      assume "map_of p (fst x) = None"
      from draw_node_missing [OF this, of lib] Inr show False by simp
    qed
    with Cons.prems have "n \<in> set xs" by auto
    with Cons.IH Cons.prems(2) obtain e where e: "snd (io_for (draw_node lib p) xs) = Inl e"
      by blast
    have "snd (io_for (draw_node lib p) (x # xs)) = Inl e" unfolding io_for_result Inr e by simp
    then show ?thesis by blast
  qed
qed

lemma draw_nodes_fail_silent:
  assumes "n \<in> set ns" and "map_of p (fst n) = None" and "\<forall>ev. lib p ev = None"
  shows "snd (io_for (draw_node lib p) ns) = Inl NetworkXError"
  using assms(1,2)
proof (induction ns)
  case Nil
  then show ?case by simp
next
  case (Cons x xs)
  show ?case
  proof (cases "map_of p (fst x) = None")
    case True
    then have "snd (draw_node lib p x) = Inl NetworkXError" by (simp add: draw_node_missing)
    then show ?thesis unfolding io_for_result by simp
  next
    case False
    with Cons.prems have "n \<in> set xs" by auto
    with Cons.IH Cons.prems(2) have rest: "snd (io_for (draw_node lib p) xs) = Inl NetworkXError"
      by simp
    from draw_node_silent [of lib p x, OF assms(3) False] show ?thesis
      unfolding io_for_result rest by simp
  qed
qed

lemma draw_networkx_edges_silent:
  assumes "\<forall>ev. lib p ev = None"
  shows "snd (draw_networkx_edges lib g p) = Inr ()
     \<or> (\<exists>k. snd (draw_networkx_edges lib g p) = Inl (KeyError k) \<and> map_of p k = None)"
proof -
  let ?ks = "concat (map (\<lambda>e. [fst (fst e), snd (fst e)]) (edges_view g))"
  from require_pos_result [of p ?ks] show ?thesis
  proof
    assume "require_pos p ?ks = ([], Inr ())"
    then show ?thesis using assms by (simp add: draw_networkx_edges_def io_then_Inr call_silent)
  next
    assume "\<exists>k. require_pos p ?ks = ([], Inl (KeyError k)) \<and> map_of p k = None"
    then obtain k where "require_pos p ?ks = ([], Inl (KeyError k))" "map_of p k = None" by blast
    then show ?thesis by (auto simp: draw_networkx_edges_def io_then_Inl)
  qed
qed

lemma draw_steps_fail:
  assumes "n \<in> set (g_nodes (graph vis))" and "map_of p (fst n) = None"
  shows "\<exists>e. snd (io_seq (draw_steps lib vis p)) = Inl e"
proof -
  from draw_nodes_fail [OF assms] obtain e where
    "snd (io_for (draw_node lib p) (g_nodes (graph vis))) = Inl e" by blast
  moreover have "io_for (draw_node lib p) (g_nodes (graph vis)) \<in> set (draw_steps lib vis p)"
    by (simp add: draw_steps_def)
  ultimately show ?thesis by (rule io_seq_fails [rotated])
qed

lemma draw_steps_fail_silent:
  assumes "n \<in> set (g_nodes (graph vis))" and "map_of p (fst n) = None"
    and "\<forall>ev. lib p ev = None"
  shows "snd (io_seq (draw_steps lib vis p)) = Inl NetworkXError
       \<or> (\<exists>k. snd (io_seq (draw_steps lib vis p)) = Inl (KeyError k) \<and> map_of p k = None)"
proof -
  have fig: "snd (call lib p Figure) = Inr ()" using assms(3) by (simp add: call_silent)
  have nodes: "snd (io_for (draw_node lib p) (g_nodes (graph vis))) = Inl NetworkXError"
    using assms by (rule draw_nodes_fail_silent)
  from draw_networkx_edges_silent [of lib p "graph vis", OF assms(3)] show ?thesis
  proof
    assume e: "snd (draw_networkx_edges lib (graph vis) p) = Inr ()"
    have "snd (io_seq (draw_steps lib vis p)) = Inl NetworkXError"
      unfolding draw_steps_def io_seq_result fig e nodes by simp
    then show ?thesis by simp
  next
    assume "\<exists>k. snd (draw_networkx_edges lib (graph vis) p) = Inl (KeyError k) \<and> map_of p k = None"
    then obtain k where k: "snd (draw_networkx_edges lib (graph vis) p) = Inl (KeyError k)"
      and m: "map_of p k = None" by blast
    have "snd (io_seq (draw_steps lib vis p)) = Inl (KeyError k)"
      unfolding draw_steps_def io_seq_result fig k by simp
    then show ?thesis using m by blast
  qed
qed

lemma draw_fails:
  assumes "snd (io_seq (draw_steps lib vis (drawn_pos vis))) = Inl e"
  shows "snd (draw lib vis output_file show) = Inl e"
  unfolding draw_unfold by (simp add: io_then_Inr io_then_fail [OF assms])

lemma draw_no_layout:
  assumes "pos vis \<noteq> []"
  shows "SpringLayout \<notin> set (fst (draw lib vis output_file show))"
proof -
  have "\<forall>e \<in> set (fst (draw lib vis output_file show)). e \<noteq> SpringLayout"
  proof (rule draw_events)
    show "pos vis = [] \<Longrightarrow> SpringLayout \<noteq> SpringLayout" using assms by simp
    show "\<forall>e \<in> set (fst (io_seq (draw_steps lib vis (drawn_pos vis)))). e \<noteq> SpringLayout"
      by (rule draw_steps_events) simp_all
    show "\<forall>e \<in> set (fst (io_seq (draw_finish lib (drawn_pos vis) output_file show))).
            e \<noteq> SpringLayout"
      by (rule draw_finish_events) simp_all
  qed
  then show ?thesis by blast
qed

lemma draw_layout:
  assumes "pos vis = []"
  shows "SpringLayout \<in> set (fst (draw lib vis output_file show))"
proof -
  obtain evs r where x: "io_then (io_seq (draw_steps lib vis (drawn_pos vis)))
          (io_seq (draw_finish lib (drawn_pos vis) output_file show)) = (evs, r)"
    by (cases "io_then (io_seq (draw_steps lib vis (drawn_pos vis)))
          (io_seq (draw_finish lib (drawn_pos vis) output_file show))")
  show ?thesis unfolding draw_unfold x using assms by (simp add: layout_result io_then_Inr)
qed

subsection \<open>Labels\<close>

lemma node_labels_acc:
  "for_each (\<lambda>acc n. case snd n of
                 Some a \<Rightarrow> Inr (acc @ [(fst n, label a)])
               | None \<Rightarrow> Inl (KeyError (KStr ''label''))) acc ns = Inr ls
   \<Longrightarrow> ls = acc @ map (\<lambda>n. (fst n, label (the (snd n)))) ns"
proof (induction ns arbitrary: acc)
  case Nil
  then show ?case by simp
next
  case (Cons n ns)
  show ?case
  proof (cases "snd n")
    case None
    with Cons.prems show ?thesis by simp
  next
    case (Some a)
    with Cons.prems have "for_each (\<lambda>acc n. case snd n of
                 Some a \<Rightarrow> Inr (acc @ [(fst n, label a)])
               | None \<Rightarrow> Inl (KeyError (KStr ''label''))) (acc @ [(fst n, label a)]) ns = Inr ls"
      by simp
    from Cons.IH [OF this] Some show ?thesis by simp
  qed
qed

lemma node_labels_Inr:
  "node_labels g = Inr ls \<Longrightarrow> ls = map (\<lambda>n. (fst n, label (the (snd n)))) (g_nodes g)"
  unfolding node_labels_def using node_labels_acc [of "[]" "g_nodes g" ls] by simp

lemma draw_labels:
  assumes "DrawLabels ls \<in> set (fst (draw lib vis output_file show))"
  shows "node_labels (graph vis) = Inr ls"
proof -
  have "\<forall>e \<in> set (fst (draw lib vis output_file show)).
          \<forall>ls. e = DrawLabels ls \<longrightarrow> node_labels (graph vis) = Inr ls"
  proof (rule draw_events)
    show "\<forall>ls. SpringLayout = DrawLabels ls \<longrightarrow> node_labels (graph vis) = Inr ls" by simp
    show "\<forall>e \<in> set (fst (io_seq (draw_steps lib vis (drawn_pos vis)))).
            \<forall>ls. e = DrawLabels ls \<longrightarrow> node_labels (graph vis) = Inr ls"
      by (rule draw_steps_events) simp_all
    show "\<forall>e \<in> set (fst (io_seq (draw_finish lib (drawn_pos vis) output_file show))).
            \<forall>ls. e = DrawLabels ls \<longrightarrow> node_labels (graph vis) = Inr ls"
      by (rule draw_finish_events) simp_all
  qed
  with assms show ?thesis by blast
qed

lemma get_node_label_truncates:
  assumes "label a = JStr s" and "length s > 20"
  shows "get_node_label str_of (Some a) = Inr (JStr (take 18 s @ ''...''))"
  using assms by (simp add: get_node_label_def py_len_def py_slice_def format_def)

lemma get_node_label_short:
  assumes "label a = JStr s" and "length s \<le> 20"
  shows "get_node_label str_of (Some a) = Inr (JStr s)"
  using assms by (simp add: get_node_label_def py_len_def)

subsection \<open>Saved files\<close>

lemma saved_files_append: "saved_files (xs @ ys) = saved_files xs @ saved_files ys"
  by (simp add: saved_files_def)

lemma saved_files_none:
  "\<forall>e \<in> set evs. \<forall>f. e \<noteq> SaveFig f \<Longrightarrow> saved_files evs = []"
  by (induction evs) (auto simp: saved_files_def split: event.splits)

lemma saved_files_mem: "f \<in> set (saved_files evs) \<longleftrightarrow> SaveFig f \<in> set evs"
  by (induction evs) (auto simp: saved_files_def split: event.splits)

lemma draw_saved_subset:
  "set (saved_files (fst (draw lib vis output_file show))) \<subseteq> set_option output_file"
proof -
  have "\<forall>e \<in> set (fst (draw lib vis output_file show)).
          \<forall>f. e = SaveFig f \<longrightarrow> output_file = Some f"
  proof (rule draw_events)
    show "\<forall>f. SpringLayout = SaveFig f \<longrightarrow> output_file = Some f" by simp
    show "\<forall>e \<in> set (fst (io_seq (draw_steps lib vis (drawn_pos vis)))).
            \<forall>f. e = SaveFig f \<longrightarrow> output_file = Some f"
      by (rule draw_steps_events) simp_all
    show "\<forall>e \<in> set (fst (io_seq (draw_finish lib (drawn_pos vis) output_file show))).
            \<forall>f. e = SaveFig f \<longrightarrow> output_file = Some f"
      by (rule draw_finish_events) (auto simp: truthy_def split: option.splits)
  qed
  then show ?thesis by (auto simp: saved_files_mem)
qed

lemma draw_steps_saved: "saved_files (fst (io_seq (draw_steps lib vis p))) = []"
  by (rule saved_files_none) (rule draw_steps_events, simp_all)

lemma draw_finish_result:
  "io_seq (draw_finish lib p output_file show) =
     (case snd (save lib p output_file) of
        Inl e \<Rightarrow> (fst (save lib p output_file), Inl e)
      | Inr _ \<Rightarrow>
          (case lib p (if show then Show else Close) of
             Some e \<Rightarrow> (fst (save lib p output_file), Inl e)
           | None \<Rightarrow> (fst (save lib p output_file) @ [if show then Show else Close], Inr ())))"
proof -
  have fin: "(if show then call lib p Show else call lib p Close)
               = call lib p (if show then Show else Close)" by simp
  obtain evs r where sv: "save lib p output_file = (evs, r)" by (cases "save lib p output_file")
  show ?thesis
  proof (cases r)
    case (Inl e)
    then show ?thesis unfolding draw_finish_def fin sv by (simp add: io_then_Inl)
  next
    case (Inr u)
    then show ?thesis unfolding draw_finish_def fin sv
      by (cases "lib p (if show then Show else Close)")
         (simp_all add: io_then_Inr io_then_Inl call_result io_skip_def)
  qed
qed

lemma save_saved:
  "snd (save lib p output_file) = Inr () \<Longrightarrow>
     saved_files (fst (save lib p output_file)) = (if truthy output_file then [the output_file] else [])"
  by (cases "truthy output_file"; cases "lib p (SaveFig (the output_file))")
     (simp_all add: save_result saved_files_def)

lemma draw_finish_saved:
  assumes "snd (io_seq (draw_finish lib p output_file show)) = Inr ()"
  shows "saved_files (fst (io_seq (draw_finish lib p output_file show)))
           = (if truthy output_file then [the output_file] else [])"
proof (cases "snd (save lib p output_file)")
  case (Inl e)
  with assms show ?thesis by (simp add: draw_finish_result)
next
  case (Inr u)
  then have sv: "saved_files (fst (save lib p output_file))
                   = (if truthy output_file then [the output_file] else [])"
    by (intro save_saved) simp
  have last: "saved_files [if show then Show else Close] = []" by (simp add: saved_files_def)
  show ?thesis
  proof (cases "lib p (if show then Show else Close)")
    case (Some e)
    with assms Inr show ?thesis by (simp add: draw_finish_result)
  next
    case None
    then have "fst (io_seq (draw_finish lib p output_file show))
                 = fst (save lib p output_file) @ [if show then Show else Close]"
      using Inr by (simp add: draw_finish_result)
    then show ?thesis using sv last by (simp only: saved_files_append append_Nil2)
  qed
qed

lemma draw_saved_success:
  assumes "snd (draw lib vis output_file show) = Inr ()"
  shows "saved_files (fst (draw lib vis output_file show))
           = (if truthy output_file then [the output_file] else [])"
proof -
  let ?S = "io_seq (draw_steps lib vis (drawn_pos vis))"
  let ?F = "io_seq (draw_finish lib (drawn_pos vis) output_file show)"
  have l: "saved_files (fst (layout vis)) = []" by (simp add: layout_result saved_files_def)
  show ?thesis
  proof (cases "snd ?S")
    case (Inl e)
    then have "snd (draw lib vis output_file show) = Inl e" by (rule draw_fails)
    with assms show ?thesis by simp
  next
    case (Inr u)
    then have d: "draw lib vis output_file show = (fst (layout vis) @ fst ?S @ fst ?F, snd ?F)"
      unfolding draw_unfold by (simp add: io_then_Inr io_then_ok)
    with assms have "snd ?F = Inr ()" by simp
    from draw_finish_saved [OF this] show ?thesis
      unfolding d by (simp add: saved_files_append l draw_steps_saved)
  qed
qed

lemma visualize_workflow_result:
  "visualize_workflow lib d output_file show =
     (case parse_workflow (WorkflowVisualizer d) of
        Inl e \<Rightarrow> ([], Inl e)
      | Inr vis \<Rightarrow> draw lib vis output_file show)"
  by (simp add: visualize_workflow_def lift_def io_bind_Inl io_bind_Inr split: sum.splits)

lemma visualize_workflow_saved_subset:
  "set (saved_files (fst (visualize_workflow lib d output_file show))) \<subseteq> set_option output_file"
proof (cases "parse_workflow (WorkflowVisualizer d)")
  case (Inl e)
  then show ?thesis by (simp add: visualize_workflow_result saved_files_def)
next
  case (Inr vis)
  then show ?thesis using draw_saved_subset [of lib vis output_file "show"]
    by (simp add: visualize_workflow_result)
qed

lemma visualize_workflow_saved_success:
  assumes "snd (visualize_workflow lib d output_file show) = Inr ()"
  shows "saved_files (fst (visualize_workflow lib d output_file show))
           = (if truthy output_file then [the output_file] else [])"
proof (cases "parse_workflow (WorkflowVisualizer d)")
  case (Inl e)
  with assms show ?thesis by (simp add: visualize_workflow_result)
next
  case (Inr vis)
  with assms have "snd (draw lib vis output_file show) = Inr ()"
    by (simp add: visualize_workflow_result)
  from draw_saved_success [OF this] Inr show ?thesis by (simp add: visualize_workflow_result)
qed

lemma visualize_workflow_file_result:
  assumes "load ev f = Inr d"
  shows "visualize_workflow_file ev f out show =
           visualize_workflow (plt ev) d
             (if \<not> truthy out \<and> \<not> show
              then Some (fst (splitext (basename f)) @ ''_visualization.png'') else out) show"
  using assms by (simp add: visualize_workflow_file_def lift_def io_bind_Inr Let_def)

subsection \<open>Paths\<close>

lemma rfind_absent: "c \<notin> set s \<Longrightarrow> rfind c s = - 1"
  by (simp add: rfind_def)

lemma rfind_last: "c \<notin> set ys \<Longrightarrow> rfind c (xs @ c # ys) = int (length xs)"
proof -
  assume a: "c \<notin> set ys"
  then have "takeWhile (\<lambda>x. x \<noteq> c) (rev ys @ c # rev xs) = rev ys"
    by (subst takeWhile_append2) auto
  then show ?thesis by (simp add: rfind_def)
qed

lemma basename_no_slash: "CHR ''/'' \<notin> set name \<Longrightarrow> basename name = name"
  by (simp add: basename_def rfind_absent)

lemma basename_after_slash:
  "CHR ''/'' \<notin> set name \<Longrightarrow> basename (dir @ ''/'' @ name) = name"
proof -
  assume "CHR ''/'' \<notin> set name"
  then have "rfind CHR ''/'' (dir @ ''/'' @ name) = int (length dir)"
    using rfind_last [of "CHR ''/''" name dir] by simp
  moreover have "nat (int (length dir) + 1) = Suc (length dir)" by simp
  ultimately show ?thesis unfolding basename_def by simp
qed

lemma splitext_no_dot: "CHR ''.'' \<notin> set name \<Longrightarrow> splitext name = (name, [])"
proof -
  assume "CHR ''.'' \<notin> set name"
  then have "rfind CHR ''.'' name = - 1" by (rule rfind_absent)
  moreover have "length (takeWhile (\<lambda>x. x \<noteq> CHR ''/'') (rev name)) \<le> length name"
    using length_takeWhile_le [of "\<lambda>x. x \<noteq> CHR ''/''" "rev name"] by simp
  then have "rfind CHR ''/'' name \<ge> - 1" by (simp add: rfind_def)
  ultimately show ?thesis by (simp add: splitext_def Let_def)
qed

lemma splitext_stem:
  assumes "CHR ''/'' \<notin> set stem" and "CHR ''/'' \<notin> set ext" and "CHR ''.'' \<notin> set ext"
    and "\<exists>c \<in> set stem. c \<noteq> CHR ''.''"
  shows "splitext (stem @ ''.'' @ ext) = (stem, ''.'' @ ext)"
proof -
  have s: "rfind CHR ''/'' (stem @ ''.'' @ ext) = - 1"
    using assms(1,2) by (intro rfind_absent) simp
  have d: "rfind CHR ''.'' (stem @ ''.'' @ ext) = int (length stem)"
    using rfind_last [OF assms(3), of stem] by simp
  have "list_ex (\<lambda>c. c \<noteq> CHR ''.'') stem" using assms(4) by (simp add: list_ex_iff)
  then show ?thesis unfolding splitext_def Let_def s d by simp
qed

section \<open>Properties of the graph builder\<close>

text \<open>
  C1. On the round-trip document of the specification, whose category \<^verbatim>\<open>main\<close> holds a
  list of lists of target references, \<^verbatim>\<open>parse_workflow\<close> builds no graph: the loop over
  the category's list takes the inner list for a target reference, and subscripting it
  with \<^verbatim>\<open>'node'\<close> raises TypeError.
\<close>

theorem parse_workflow_roundtrip_doc:
  "parse_workflow (WorkflowVisualizer roundtrip_doc) = Inl TypeError"
  by code_simp

text \<open>
  C2, as stated, fails for a document with no \<^verbatim>\<open>nodes\<close> key: the node list is read with
  \<^verbatim>\<open>.get('nodes', [])\<close>, so nothing is raised and the graph stays empty.
\<close>

theorem parse_workflow_no_nodes_key:
  "parse_workflow (WorkflowVisualizer no_nodes_doc) = Inr (WorkflowVisualizer no_nodes_doc)"
  by code_simp

text \<open>
  C2, amended. A document with no \<^verbatim>\<open>nodes\<close> key is read as one with an empty node list:
  \<^verbatim>\<open>parse_workflow\<close> goes on to the connections. A node record lacking \<^verbatim>\<open>id\<close> or
  \<^verbatim>\<open>type\<close> makes \<^verbatim>\<open>parse_workflow\<close> raise and return no graph; when the records before
  it were processed, the exception is the KeyError for \<^verbatim>\<open>id\<close>, or for \<^verbatim>\<open>type\<close> when
  only that is missing.
\<close>

theorem parse_workflow_missing_keys:
  assumes "workflow vis = JObj w"
  shows "(map_of w ''nodes'' = None \<longrightarrow>
            parse_workflow vis
              = bind (py_items (dict_get w ''connections'' (JObj []))) (for_each parse_source vis))
       \<and> (py_iter (dict_get w ''nodes'' (JArr [])) = Inr (pre @ JObj nd # post)
            \<and> (map_of nd ''id'' = None \<or> map_of nd ''type'' = None) \<longrightarrow>
            (\<exists>e. parse_workflow vis = Inl e)
          \<and> (for_each parse_node vis pre = Inr vis1 \<longrightarrow>
               parse_workflow vis
                 = Inl (KeyError (KStr (if map_of nd ''id'' = None then ''id'' else ''type'')))))"
proof (intro conjI impI)
  assume "map_of w ''nodes'' = None"
  then show "parse_workflow vis
      = bind (py_items (dict_get w ''connections'' (JObj []))) (for_each parse_source vis)"
    using assms by (simp add: parse_workflow_def dict_get_def py_iter_def)
next
  assume a: "py_iter (dict_get w ''nodes'' (JArr [])) = Inr (pre @ JObj nd # post)
            \<and> (map_of nd ''id'' = None \<or> map_of nd ''type'' = None)"
  then have "\<And>s. \<exists>e. parse_node s (JObj nd) = Inl e"
    by (simp add: parse_node_missing_key)
  from for_each_fails [of parse_node, OF this]
  obtain e where "for_each parse_node vis (pre @ JObj nd # post) = Inl e" by blast
  then show "\<exists>e. parse_workflow vis = Inl e"
    using assms a by (simp add: parse_workflow_def)
next
  assume a: "py_iter (dict_get w ''nodes'' (JArr [])) = Inr (pre @ JObj nd # post)
            \<and> (map_of nd ''id'' = None \<or> map_of nd ''type'' = None)"
    and pre: "for_each parse_node vis pre = Inr vis1"
  have "for_each parse_node vis (pre @ JObj nd # post)
          = Inl (KeyError (KStr (if map_of nd ''id'' = None then ''id'' else ''type'')))"
    using a pre by (simp add: for_each_append parse_node_missing_key)
  then show "parse_workflow vis
      = Inl (KeyError (KStr (if map_of nd ''id'' = None then ''id'' else ''type'')))"
    using assms a by (simp add: parse_workflow_def)
qed

theorem parse_workflow_missing_keys_witness:
  "parse_workflow (WorkflowVisualizer missing_type_doc) = Inl (KeyError (KStr ''type''))
   \<and> parse_workflow (WorkflowVisualizer no_nodes_doc)
       = bind (py_items (dict_get [(''name'', JStr ''T'')] ''connections'' (JObj [])))
           (for_each parse_source (WorkflowVisualizer no_nodes_doc))"
proof
  let ?n1 = "JObj [(''id'', JStr ''1''), (''type'', JStr ''n8n-nodes-base.start'')]"
  let ?nd = "[(''id'', JStr ''2'')]"
  let ?w = "[(''nodes'', JArr [?n1, JObj ?nd])]"
  have h1: "workflow (WorkflowVisualizer missing_type_doc) = JObj ?w"
    by (simp add: WorkflowVisualizer_def missing_type_doc_def)
  have h2: "py_iter (dict_get ?w ''nodes'' (JArr [])) = Inr ([?n1] @ JObj ?nd # [])
              \<and> (map_of ?nd ''id'' = None \<or> map_of ?nd ''type'' = None)"
    by (simp add: dict_get_def py_iter_def)
  have h3: "for_each parse_node (WorkflowVisualizer missing_type_doc) [?n1] = Inr missing_type_first"
    by code_simp
  have h4: "(if map_of ?nd ''id'' = None then ''id'' else ''type'') = ''type''"
    by simp
  from parse_workflow_missing_keys [OF h1, of "[?n1]" ?nd "[]" missing_type_first,
      THEN conjunct2, THEN mp, OF h2, THEN conjunct2, THEN mp, OF h3]
  show "parse_workflow (WorkflowVisualizer missing_type_doc) = Inl (KeyError (KStr ''type''))"
    unfolding h4 .
next
  let ?w = "[(''name'', JStr ''T'')]"
  have h1: "workflow (WorkflowVisualizer no_nodes_doc) = JObj ?w"
    by (simp add: WorkflowVisualizer_def no_nodes_doc_def)
  have h2: "map_of ?w ''nodes'' = None" by simp
  from parse_workflow_missing_keys [OF h1, THEN conjunct1, THEN mp, OF h2]
  show "parse_workflow (WorkflowVisualizer no_nodes_doc)
       = bind (py_items (dict_get ?w ''connections'' (JObj [])))
           (for_each parse_source (WorkflowVisualizer no_nodes_doc))" .
qed

text \<open>
  C3, as stated, fails when two categories of one source list the same target: the graph
  keeps one edge per ordered pair of vertices, and the later category overwrites the
  earlier one's attribute.
\<close>

theorem parse_workflow_two_categories:
  "parse_workflow (WorkflowVisualizer two_categories_doc) =
     Inr \<lparr>workflow = two_categories_doc,
          graph = \<lparr>g_nodes =
                     [(KStr ''1'', Some \<lparr>label = JStr ''if'', ntype = ''n8n-nodes-base.if'',
                                          parameters = JObj []\<rparr>),
                      (KStr ''2'', Some \<lparr>label = JStr ''set'', ntype = ''n8n-nodes-base.set'',
                                          parameters = JObj []\<rparr>)],
                   g_edges = [((KStr ''1'', KStr ''2''), ''error'')]\<rparr>,
          pos = []\<rparr>
   \<and> (''1'', ''main'', JObj [(''node'', JStr ''2'')]) \<in> set (connection_entries two_categories_doc)"
  by code_simp

text \<open>
  C3, amended. When \<^verbatim>\<open>parse_workflow\<close> returns, then for every connection entry (source
  id, category, target reference) the target reference names a vertex key, both ends are
  vertices of the graph, and the graph has the edge from the source to the target; the
  edge's connection category is the category of the last entry processed for this pair of
  source and target, which is the entry's own category when no other category lists the
  pair.
\<close>

theorem parse_workflow_edges:
  assumes "parse_workflow (WorkflowVisualizer doc) = Inr vis'"
    and "(src, cat, conn) \<in> set (connection_entries doc)"
  shows "\<exists>k. target_key conn = Some k
           \<and> has_node (graph vis') (KStr src) \<and> has_node (graph vis') k
           \<and> map_of (g_edges (graph vis')) (KStr src, k)
               = Some (last (categories_for (connection_entries doc) src k))
           \<and> cat \<in> set (categories_for (connection_entries doc) src k)
           \<and> (set (categories_for (connection_entries doc) src k) = {cat} \<longrightarrow>
                map_of (g_edges (graph vis')) (KStr src, k) = Some cat)"
proof -
  from parse_workflow_fresh [OF assms(1)] obtain vis1 where
    run: "for_each parse_entry vis1 (connection_entries doc) = Inr vis'" by blast
  from parse_entries_targets [OF run assms(2)] obtain k where k: "target_key conn = Some k"
    by auto
  from parse_entries_endpoints [OF run assms(2)] k
  have nodes: "has_node (graph vis') (KStr src)" "has_node (graph vis') k" by simp_all
  have mem: "cat \<in> set (categories_for (connection_entries doc) src k)"
    using assms(2) k by (force simp: categories_for_def)
  then obtain c cs where cs: "categories_for (connection_entries doc) src k = c # cs"
    by (cases "categories_for (connection_entries doc) src k") auto
  from parse_entries_edges [OF run, of src k] cs
  have edge: "map_of (g_edges (graph vis')) (KStr src, k)
               = Some (last (categories_for (connection_entries doc) src k))"
    by simp
  have "last (categories_for (connection_entries doc) src k)
          \<in> set (categories_for (connection_entries doc) src k)"
    using cs by (intro last_in_set) simp
  then have "set (categories_for (connection_entries doc) src k) = {cat} \<longrightarrow>
                map_of (g_edges (graph vis')) (KStr src, k) = Some cat"
    using edge by auto
  with k nodes edge mem show ?thesis by blast
qed

theorem parse_workflow_edges_witness:
  "parse_workflow (WorkflowVisualizer flat_doc) = Inr flat_result
   \<and> (''1'', ''main'', JObj [(''node'', JStr ''2'')]) \<in> set (connection_entries flat_doc)
   \<and> has_node (graph flat_result) (KStr ''1'') \<and> has_node (graph flat_result) (KStr ''2'')
   \<and> map_of (g_edges (graph flat_result)) (KStr ''1'', KStr ''2'') = Some ''main''"
proof -
  have h1: "parse_workflow (WorkflowVisualizer flat_doc) = Inr flat_result" by code_simp
  have h2: "(''1'', ''main'', JObj [(''node'', JStr ''2'')]) \<in> set (connection_entries flat_doc)"
    by code_simp
  have tk: "target_key (JObj [(''node'', JStr ''2'')]) = Some (KStr ''2'')" by code_simp
  have cl: "categories_for (connection_entries flat_doc) ''1'' (KStr ''2'') = [''main'']"
    by code_simp
  have cats: "set (categories_for (connection_entries flat_doc) ''1'' (KStr ''2'')) = {''main''}"
    unfolding cl by simp
  from parse_workflow_edges [OF h1 h2] obtain k where
    k: "target_key (JObj [(''node'', JStr ''2'')]) = Some k"
    and n: "has_node (graph flat_result) (KStr ''1'')" "has_node (graph flat_result) k"
    and e: "set (categories_for (connection_entries flat_doc) ''1'' k) = {''main''} \<longrightarrow>
                map_of (g_edges (graph flat_result)) (KStr ''1'', k) = Some ''main''"
    by (elim exE conjE)
  from k tk have "k = KStr ''2''" by simp
  with n e cats
  have "has_node (graph flat_result) (KStr ''1'') \<and> has_node (graph flat_result) (KStr ''2'')
   \<and> map_of (g_edges (graph flat_result)) (KStr ''1'', KStr ''2'') = Some ''main''"
    by simp
  with h1 h2 show ?thesis by simp
qed

text \<open>
  C5. When \<^verbatim>\<open>parse_workflow\<close> returns for a document whose node list has \<open>N\<close> records
  with pairwise distinct ids, and whose connections mention only these ids as sources and
  targets, the graph has exactly \<open>N\<close> vertices, with distinct keys, and the set of vertex
  keys is the set of node ids.
\<close>

theorem parse_workflow_vertices:
  assumes "parse_workflow (WorkflowVisualizer (JObj w)) = Inr vis'"
    and "dict_get w ''nodes'' (JArr []) = JArr ns"
    and "distinct (map node_id ns)"
    and "\<forall>e \<in> set (connection_entries (JObj w)).
           Some (KStr (fst e)) \<in> set (map node_id ns)
         \<and> target_key (snd (snd e)) \<in> set (map node_id ns)"
  shows "length (g_nodes (graph vis')) = length ns
       \<and> distinct (map fst (g_nodes (graph vis')))
       \<and> Some ` fst ` set (g_nodes (graph vis')) = set (map node_id ns)"
proof -
  from parse_workflow_fresh [OF assms(1)] assms(2) obtain vis1 where
    n: "for_each parse_node (WorkflowVisualizer (JObj w)) ns = Inr vis1"
    and e: "for_each parse_entry vis1 (connection_entries (JObj w)) = Inr vis'"
    by (auto simp: py_iter_def)
  have keys: "map Some (map fst (g_nodes (graph vis1))) = map node_id ns"
    using parse_nodes_keys [OF n assms(3)] by (simp add: has_node_def)
  have inset: "\<And>k. Some k \<in> set (map node_id ns) \<Longrightarrow> has_node (graph vis1) k"
  proof -
    fix k assume "Some k \<in> set (map node_id ns)"
    then have "Some k \<in> set (map Some (map fst (g_nodes (graph vis1))))" using keys by simp
    then show "has_node (graph vis1) k" by (auto simp: has_node_def)
  qed
  have "\<forall>e \<in> set (connection_entries (JObj w)). has_node (graph vis1) (KStr (fst e))
            \<and> (\<forall>k. target_key (snd (snd e)) = Some k \<longrightarrow> has_node (graph vis1) k)"
  proof (intro ballI conjI allI impI)
    fix e assume "e \<in> set (connection_entries (JObj w))"
    with assms(4) show "has_node (graph vis1) (KStr (fst e))" by (intro inset) blast
  next
    fix e k assume "e \<in> set (connection_entries (JObj w))" and "target_key (snd (snd e)) = Some k"
    with assms(4) have "Some k \<in> set (map node_id ns)" by force
    then show "has_node (graph vis1) k" by (rule inset)
  qed
  from parse_entries_no_new_nodes [OF e this]
  have same: "g_nodes (graph vis') = g_nodes (graph vis1)" .
  have len: "length (g_nodes (graph vis')) = length ns"
    using arg_cong [OF keys, of length] same by simp
  have dist: "distinct (map fst (g_nodes (graph vis')))"
  proof -
    have "distinct (map Some (map fst (g_nodes (graph vis1))))" using keys assms(3) by simp
    then have "distinct (map fst (g_nodes (graph vis1)))"
      using distinct_map [of Some "map fst (g_nodes (graph vis1))"] by blast
    then show ?thesis using same by simp
  qed
  have "Some ` fst ` set (g_nodes (graph vis')) = set (map node_id ns)"
    using arg_cong [OF keys, of set] same by (simp add: image_image)
  with len dist show ?thesis by simp
qed

theorem parse_workflow_vertices_witness:
  "parse_workflow (WorkflowVisualizer flat_doc) = Inr flat_result
   \<and> length (g_nodes (graph flat_result)) = 2
   \<and> fst ` set (g_nodes (graph flat_result)) = {KStr ''1'', KStr ''2''}"
proof -
  let ?n1 = "JObj [(''id'', JStr ''1''), (''type'', JStr ''n8n-nodes-base.start''),
                     (''position'', JArr [JInt 250, JInt 300])]"
  let ?n2 = "JObj [(''id'', JStr ''2''), (''type'', JStr ''n8n-nodes-base.set''),
                     (''name'', JStr ''SetX'')]"
  let ?w = "[(''name'', JStr ''T''), (''nodes'', JArr [?n1, ?n2]),
           (''connections'', JObj
              [(''1'', JObj [(''main'', JArr [JObj [(''node'', JStr ''2'')]])])])]"
  have d: "flat_doc = JObj ?w" by (simp add: flat_doc_def)
  have h1: "parse_workflow (WorkflowVisualizer (JObj ?w)) = Inr flat_result"
    unfolding d [symmetric] by code_simp
  have h2: "dict_get ?w ''nodes'' (JArr []) = JArr [?n1, ?n2]" by (simp add: dict_get_def)
  have ids: "map node_id [?n1, ?n2] = [Some (KStr ''1''), Some (KStr ''2'')]" by code_simp
  have h3: "distinct (map node_id [?n1, ?n2])" unfolding ids by simp
  have h4: "\<forall>e \<in> set (connection_entries (JObj ?w)).
           Some (KStr (fst e)) \<in> set (map node_id [?n1, ?n2])
         \<and> target_key (snd (snd e)) \<in> set (map node_id [?n1, ?n2])"
    by code_simp
  from parse_workflow_vertices [OF h1 h2 h3 h4]
  have "length (g_nodes (graph flat_result)) = 2"
    and s: "Some ` fst ` set (g_nodes (graph flat_result)) = set (map node_id [?n1, ?n2])"
    by simp_all
  moreover from s have "fst ` set (g_nodes (graph flat_result)) = {KStr ''1'', KStr ''2''}"
    unfolding ids by (auto simp: image_iff) 
  ultimately show ?thesis using h1 d by simp
qed

text \<open>
  C6. When \<^verbatim>\<open>parse_workflow\<close> returns for a document with pairwise distinct node ids,
  the vertex of a node record of type \<open>t\<close> carries as label the substring of \<open>t\<close> after
  its last dot when the record has no \<^verbatim>\<open>name\<close> key, and the value of \<^verbatim>\<open>name\<close> when
  it has one.
\<close>

theorem parse_workflow_label:
  assumes "parse_workflow (WorkflowVisualizer (JObj w)) = Inr vis'"
    and "dict_get w ''nodes'' (JArr []) = JArr ns"
    and "distinct (map node_id ns)"
    and "JObj nd \<in> set ns" and "node_id (JObj nd) = Some k"
    and "map_of nd ''type'' = Some (JStr t)"
  shows "\<exists>a. map_of (g_nodes (graph vis')) k = Some (Some a)
           \<and> (map_of nd ''name'' = None \<longrightarrow> label a = JStr (after_last_dot t))
           \<and> (\<forall>name. map_of nd ''name'' = Some name \<longrightarrow> label a = name)"
proof -
  from parse_workflow_fresh [OF assms(1)] assms(2) obtain vis1 where
    n: "for_each parse_node (WorkflowVisualizer (JObj w)) ns = Inr vis1"
    and e: "for_each parse_entry vis1 (connection_entries (JObj w)) = Inr vis'"
    by (auto simp: py_iter_def)
  from node_id_Some [OF assms(5)] obtain i where i: "map_of nd ''id'' = Some i" "key_of i = Inr k"
    by blast
  from parse_nodes_stored [OF n assms(3,4) i assms(6)]
  have "map_of (g_nodes (graph vis1)) k = Some (Some (stored_attrs nd t))" by simp
  from parse_entries_attrs [OF e this]
  have "map_of (g_nodes (graph vis')) k = Some (Some (stored_attrs nd t))" .
  then have attrs: "map_of (g_nodes (graph vis')) k = Some (Some (stored_attrs nd t))" .
  have lbl: "label (stored_attrs nd t) = dict_get nd ''name'' (JStr (after_last_dot t))"
    by (simp add: stored_attrs_def last_segment_after_last_dot)
  have none: "map_of nd ''name'' = None \<longrightarrow> label (stored_attrs nd t) = JStr (after_last_dot t)"
    unfolding lbl dict_get_def by simp
  have some: "\<forall>name. map_of nd ''name'' = Some name \<longrightarrow> label (stored_attrs nd t) = name"
    unfolding lbl dict_get_def by simp
  show ?thesis
    by (rule exI [of _ "stored_attrs nd t"]) (intro conjI attrs none some)
qed

theorem parse_workflow_label_witness:
  "parse_workflow (WorkflowVisualizer flat_doc) = Inr flat_result
   \<and> map_option (map_option label) (map_of (g_nodes (graph flat_result)) (KStr ''1''))
       = Some (Some (JStr (after_last_dot ''n8n-nodes-base.start'')))
   \<and> map_option (map_option label) (map_of (g_nodes (graph flat_result)) (KStr ''2''))
       = Some (Some (JStr ''SetX''))"
proof -
  let ?nd1 = "[(''id'', JStr ''1''), (''type'', JStr ''n8n-nodes-base.start''),
                     (''position'', JArr [JInt 250, JInt 300])]"
  let ?nd2 = "[(''id'', JStr ''2''), (''type'', JStr ''n8n-nodes-base.set''),
                     (''name'', JStr ''SetX'')]"
  let ?w = "[(''name'', JStr ''T''), (''nodes'', JArr [JObj ?nd1, JObj ?nd2]),
           (''connections'', JObj
              [(''1'', JObj [(''main'', JArr [JObj [(''node'', JStr ''2'')]])])])]"
  have d: "flat_doc = JObj ?w" by (simp add: flat_doc_def)
  have h1: "parse_workflow (WorkflowVisualizer (JObj ?w)) = Inr flat_result"
    unfolding d [symmetric] by code_simp
  have h2: "dict_get ?w ''nodes'' (JArr []) = JArr [JObj ?nd1, JObj ?nd2]"
    by (simp add: dict_get_def)
  have ids: "map node_id [JObj ?nd1, JObj ?nd2] = [Some (KStr ''1''), Some (KStr ''2'')]"
    by code_simp
  have h3: "distinct (map node_id [JObj ?nd1, JObj ?nd2])" unfolding ids by simp
  have m1: "JObj ?nd1 \<in> set [JObj ?nd1, JObj ?nd2]" by simp
  have m2: "JObj ?nd2 \<in> set [JObj ?nd1, JObj ?nd2]" by simp
  have i1: "node_id (JObj ?nd1) = Some (KStr ''1'')" by code_simp
  have i2: "node_id (JObj ?nd2) = Some (KStr ''2'')" by code_simp
  have t1: "map_of ?nd1 ''type'' = Some (JStr ''n8n-nodes-base.start'')" by simp
  have t2: "map_of ?nd2 ''type'' = Some (JStr ''n8n-nodes-base.set'')" by simp
  have n1: "map_of ?nd1 ''name'' = None" by simp
  have n2: "map_of ?nd2 ''name'' = Some (JStr ''SetX'')" by simp
  from parse_workflow_label [OF h1 h2 h3 m1 i1 t1] obtain a where
    a: "map_of (g_nodes (graph flat_result)) (KStr ''1'') = Some (Some a)"
    and la: "map_of ?nd1 ''name'' = None \<longrightarrow> label a = JStr (after_last_dot ''n8n-nodes-base.start'')"
    by (elim exE conjE)
  from parse_workflow_label [OF h1 h2 h3 m2 i2 t2] obtain b where
    b: "map_of (g_nodes (graph flat_result)) (KStr ''2'') = Some (Some b)"
    and lb: "\<forall>name. map_of ?nd2 ''name'' = Some name \<longrightarrow> label b = name"
    by (elim exE conjE)
  from la n1 have "label a = JStr (after_last_dot ''n8n-nodes-base.start'')" by (rule mp)
  moreover from lb [rule_format, OF n2] have "label b = JStr ''SetX''" .
  ultimately show ?thesis unfolding d [symmetric] a b using h1 d by simp
qed

text \<open>
  C7. When \<^verbatim>\<open>parse_workflow\<close> returns for a document with pairwise distinct node ids,
  a node record whose \<^verbatim>\<open>position\<close> is a list starting with \<open>x\<close> and the number \<open>y\<close>
  has the stored coordinate \<open>(x, -y)\<close> under its id; a record with no \<^verbatim>\<open>position\<close>,
  or with one of length below 2, has no stored coordinate.
\<close>

theorem parse_workflow_position:
  assumes "parse_workflow (WorkflowVisualizer (JObj w)) = Inr vis'"
    and "dict_get w ''nodes'' (JArr []) = JArr ns"
    and "distinct (map node_id ns)"
    and "JObj nd \<in> set ns" and "node_id (JObj nd) = Some k"
  shows "(map_of nd ''position'' = Some (JArr (x # JInt y # rest)) \<longrightarrow>
            map_of (pos vis') k = Some (Coord x (JInt (- y))))
       \<and> (map_of nd ''position'' = None \<longrightarrow> map_of (pos vis') k = None)
       \<and> (map_of nd ''position'' = Some p \<and> py_len p = Inr n \<and> n < 2 \<longrightarrow>
            map_of (pos vis') k = None)"
proof -
  from parse_workflow_fresh [OF assms(1)] assms(2) obtain vis1 where
    n: "for_each parse_node (WorkflowVisualizer (JObj w)) ns = Inr vis1"
    and e: "for_each parse_entry vis1 (connection_entries (JObj w)) = Inr vis'"
    by (auto simp: py_iter_def)
  from parse_nodes_wf [OF n assms(4)] obtain i t where it: "map_of nd ''id'' = Some i"
    "map_of nd ''type'' = Some (JStr t)" by auto
  with node_id_Some [OF assms(5)] have i: "key_of i = Inr k" by auto
  from parse_nodes_stored [OF n assms(3,4) it(1) i it(2)]
  have "map_of (pos vis1) k = stored_coord nd" by (simp split: option.splits)
  with parse_entries_pos [OF e] have stored: "map_of (pos vis') k = stored_coord nd" by simp
  have "map_of nd ''position'' = Some (JArr (x # JInt y # rest)) \<longrightarrow>
          stored_coord nd = Some (Coord x (JInt (- y)))"
    by (simp add: stored_coord_def py_len_def py_index_def py_neg_def)
  moreover have "map_of nd ''position'' = None \<longrightarrow> stored_coord nd = None"
    by (simp add: stored_coord_def)
  moreover have "map_of nd ''position'' = Some p \<and> py_len p = Inr n \<and> n < 2 \<longrightarrow> stored_coord nd = None"
    by (simp add: stored_coord_def)
  ultimately show ?thesis using stored by simp
qed

theorem parse_workflow_position_witness:
  "parse_workflow (WorkflowVisualizer flat_doc) = Inr flat_result
   \<and> map_of (pos flat_result) (KStr ''1'') = Some (Coord (JInt 250) (JInt (- 300)))
   \<and> map_of (pos flat_result) (KStr ''2'') = None
   \<and> parse_workflow (WorkflowVisualizer short_position_doc) = Inr short_position_result
   \<and> map_of (pos short_position_result) (KStr ''1'') = None"
proof -
  let ?nd1 = "[(''id'', JStr ''1''), (''type'', JStr ''n8n-nodes-base.start''),
                     (''position'', JArr [JInt 250, JInt 300])]"
  let ?nd2 = "[(''id'', JStr ''2''), (''type'', JStr ''n8n-nodes-base.set''),
                     (''name'', JStr ''SetX'')]"
  let ?w = "[(''name'', JStr ''T''), (''nodes'', JArr [JObj ?nd1, JObj ?nd2]),
           (''connections'', JObj
              [(''1'', JObj [(''main'', JArr [JObj [(''node'', JStr ''2'')]])])])]"
  let ?nd3 = "[(''id'', JStr ''1''), (''type'', JStr ''n8n-nodes-base.set''),
                     (''position'', JArr [JInt 5])]"
  let ?w3 = "[(''nodes'', JArr [JObj ?nd3])]"
  have d: "flat_doc = JObj ?w" by (simp add: flat_doc_def)
  have d3: "short_position_doc = JObj ?w3" by (simp add: short_position_doc_def)
  have h1: "parse_workflow (WorkflowVisualizer (JObj ?w)) = Inr flat_result"
    unfolding d [symmetric] by code_simp
  have g1: "parse_workflow (WorkflowVisualizer (JObj ?w3)) = Inr short_position_result"
    unfolding d3 [symmetric] by code_simp
  have h2: "dict_get ?w ''nodes'' (JArr []) = JArr [JObj ?nd1, JObj ?nd2]"
    by (simp add: dict_get_def)
  have g2: "dict_get ?w3 ''nodes'' (JArr []) = JArr [JObj ?nd3]"
    by (simp add: dict_get_def)
  have i1: "node_id (JObj ?nd1) = Some (KStr ''1'')" by code_simp
  have i2: "node_id (JObj ?nd2) = Some (KStr ''2'')" by code_simp
  have i3: "node_id (JObj ?nd3) = Some (KStr ''1'')" by code_simp
  have h3: "distinct (map node_id [JObj ?nd1, JObj ?nd2])" using i1 i2 by simp
  have g3: "distinct (map node_id [JObj ?nd3])" by simp
  have m1: "JObj ?nd1 \<in> set [JObj ?nd1, JObj ?nd2]" by simp
  have m2: "JObj ?nd2 \<in> set [JObj ?nd1, JObj ?nd2]" by simp
  have m3: "JObj ?nd3 \<in> set [JObj ?nd3]" by simp
  have p1: "map_of ?nd1 ''position'' = Some (JArr (JInt 250 # JInt 300 # []))" by simp
  have p2: "map_of ?nd2 ''position'' = None" by simp
  have p3: "map_of ?nd3 ''position'' = Some (JArr [JInt 5]) \<and> py_len (JArr [JInt 5]) = Inr 1
             \<and> (1::nat) < 2"
    by (simp add: py_len_def)
  from parse_workflow_position [OF h1 h2 h3 m1 i1, of "JInt 250" 300 "[]", THEN conjunct1, THEN mp, OF p1]
  have c1: "map_of (pos flat_result) (KStr ''1'') = Some (Coord (JInt 250) (JInt (- 300)))" .
  from parse_workflow_position [OF h1 h2 h3 m2 i2, THEN conjunct2, THEN conjunct1, THEN mp, OF p2]
  have c2: "map_of (pos flat_result) (KStr ''2'') = None" .
  from parse_workflow_position [OF g1 g2 g3 m3 i3, of _ _ _ "JArr [JInt 5]" 1,
      THEN conjunct2, THEN conjunct2, THEN mp, OF p3]
  have c3: "map_of (pos short_position_result) (KStr ''1'') = None" .
  from h1 g1 c1 c2 c3 show ?thesis unfolding d [symmetric] d3 [symmetric] by (intro conjI)
qed

section \<open>Properties of drawing and of the entry points\<close>

text \<open>
  C4. Whatever the library does, every label-drawing call of \<^verbatim>\<open>draw\<close> carries the
  stored labels as they are. For a node named \<^verbatim>\<open>Send weekly report email\<close> (24
  characters) the label drawn is the whole name. The helper \<^verbatim>\<open>_get_node_label\<close> would
  give the first 18 characters followed by \<^verbatim>\<open>...\<close>, but \<^verbatim>\<open>draw\<close> never calls it.
\<close>

theorem draw_labels_not_truncated:
  "(DrawLabels ls \<in> set (fst (draw lib vis output_file show)) \<longrightarrow>
      ls = map (\<lambda>n. (fst n, label (the (snd n)))) (g_nodes (graph vis)))
   \<and> visualize_workflow silent long_label_doc None False =
     ([SpringLayout, Figure, DrawEdges [],
       DrawNode (KStr ''1'') ''#b4a7d6'', Text (KStr ''1'') ''set'',
       DrawLabels [(KStr ''1'', JStr ''Send weekly report email'')],
       DrawEdgeLabels [], Title (JStr ''Untitled''), AxisOff, TightLayout, Close], Inr ())
   \<and> length ''Send weekly report email'' = 24
   \<and> get_node_label str_of
        (Some \<lparr>label = JStr ''Send weekly report email'', ntype = ''n8n-nodes-base.set'',
               parameters = JObj []\<rparr>) = Inr (JStr ''Send weekly report...'')"
proof (intro conjI impI)
  assume "DrawLabels ls \<in> set (fst (draw lib vis output_file show))"
  then have "node_labels (graph vis) = Inr ls" by (rule draw_labels)
  then show "ls = map (\<lambda>n. (fst n, label (the (snd n)))) (g_nodes (graph vis))"
    by (rule node_labels_Inr)
next
  show "visualize_workflow silent long_label_doc None False =
     ([SpringLayout, Figure, DrawEdges [],
       DrawNode (KStr ''1'') ''#b4a7d6'', Text (KStr ''1'') ''set'',
       DrawLabels [(KStr ''1'', JStr ''Send weekly report email'')],
       DrawEdgeLabels [], Title (JStr ''Untitled''), AxisOff, TightLayout, Close], Inr ())"
    by code_simp
  show "length ''Send weekly report email'' = 24" by simp
  show "get_node_label str_of
        (Some \<lparr>label = JStr ''Send weekly report email'', ntype = ''n8n-nodes-base.set'',
               parameters = JObj []\<rparr>) = Inr (JStr ''Send weekly report...'')"
    by (simp add: get_node_label_def py_len_def py_slice_def format_def)
qed

theorem draw_labels_not_truncated_witness:
  "parse_workflow (WorkflowVisualizer long_label_doc) = Inr long_label_result
   \<and> DrawLabels [(KStr ''1'', JStr ''Send weekly report email'')]
       \<in> set (fst (draw silent long_label_result None False))
   \<and> [(KStr ''1'', JStr ''Send weekly report email'')]
       = map (\<lambda>n. (fst n, label (the (snd n)))) (g_nodes (graph long_label_result))"
proof -
  have p: "parse_workflow (WorkflowVisualizer long_label_doc) = Inr long_label_result"
    by code_simp
  have h: "DrawLabels [(KStr ''1'', JStr ''Send weekly report email'')]
       \<in> set (fst (draw silent long_label_result None False))"
    by code_simp
  from draw_labels_not_truncated [of "[(KStr ''1'', JStr ''Send weekly report email'')]"
      silent long_label_result None False, THEN conjunct1, THEN mp, OF h]
  have "[(KStr ''1'', JStr ''Send weekly report email'')]
       = map (\<lambda>n. (fst n, label (the (snd n)))) (g_nodes (graph long_label_result))" .
  with p h show ?thesis by (intro conjI)
qed

text \<open>
  C8. For parsed arguments, \<^verbatim>\<open>main\<close> exits with status 1 after printing only
  \<^verbatim>\<open>Error: File '<path>' not found\<close> when no file exists at the path; with status 1
  after printing \<^verbatim>\<open>Error visualizing workflow: <message>\<close> when loading, parsing or drawing
  raises; and with status 0 otherwise.
\<close>

theorem main_exit_status:
  "(fs ev (workflow_file a) = None \<longrightarrow>
      main ev a = ([Print (''Error: File '' @ [CHR 0x27] @ workflow_file a @ [CHR 0x27]
                            @ '' not found'')], 1))
   \<and> (fs ev (workflow_file a) \<noteq> None
        \<and> snd (visualize_workflow_file ev (workflow_file a) (output_arg a) (\<not> no_show a)) = Inl e \<longrightarrow>
      main ev a = (fst (visualize_workflow_file ev (workflow_file a) (output_arg a) (\<not> no_show a))
                     @ [Print (''Error visualizing workflow: '' @ msg ev e)], 1))
   \<and> (fs ev (workflow_file a) \<noteq> None
        \<and> snd (visualize_workflow_file ev (workflow_file a) (output_arg a) (\<not> no_show a)) = Inr () \<longrightarrow>
      main ev a = (fst (visualize_workflow_file ev (workflow_file a) (output_arg a) (\<not> no_show a)), 0))"
  by (auto simp: main_def split: prod.splits sum.splits)

theorem main_exit_status_witness:
  "main example_env \<lparr>workflow_file = ''nope.json'', output_arg = None, no_show = True\<rparr>
     = ([Print (''Error: File '' @ [CHR 0x27] @ ''nope.json'' @ [CHR 0x27] @ '' not found'')], 1)
   \<and> main example_env \<lparr>workflow_file = ''bad.json'', output_arg = None, no_show = True\<rparr>
     = ([Print ''Error visualizing workflow: invalid document''], 1)
   \<and> snd (main example_env \<lparr>workflow_file = ''flow.json'', output_arg = None, no_show = True\<rparr>)
     = 0"
proof -
  let ?a1 = "\<lparr>workflow_file = ''nope.json'', output_arg = None, no_show = True\<rparr>"
  let ?a2 = "\<lparr>workflow_file = ''bad.json'', output_arg = None, no_show = True\<rparr>"
  let ?a3 = "\<lparr>workflow_file = ''flow.json'', output_arg = None, no_show = True\<rparr>"
  have m1: "fs example_env (workflow_file ?a1) = None" by (simp add: example_env_def)
  have bad: "visualize_workflow_file example_env ''bad.json'' None False = ([], Inl JSONDecodeError)"
    by (simp add: visualize_workflow_file_def load_def example_env_def lift_def io_bind_Inl)
  have m2: "fs example_env (workflow_file ?a2) \<noteq> None
        \<and> snd (visualize_workflow_file example_env (workflow_file ?a2) (output_arg ?a2)
                 (\<not> no_show ?a2)) = Inl JSONDecodeError"
    by (simp add: bad) (simp add: example_env_def)
  have l: "load example_env ''flow.json'' = Inr short_position_doc"
    by (simp add: load_def example_env_def)
  have good: "visualize_workflow_file example_env ''flow.json'' None False
         = visualize_workflow silent short_position_doc
             (Some (fst (splitext (basename ''flow.json'')) @ ''_visualization.png'')) False"
    using l by (simp add: visualize_workflow_file_result truthy_def) (simp add: example_env_def)
  have ok: "snd (visualize_workflow_file example_env ''flow.json'' None False) = Inr ()"
    unfolding good by code_simp
  have m3: "fs example_env (workflow_file ?a3) \<noteq> None
        \<and> snd (visualize_workflow_file example_env (workflow_file ?a3) (output_arg ?a3)
                 (\<not> no_show ?a3)) = Inr ()"
    by (simp add: ok) (simp add: example_env_def)
  from main_exit_status [of example_env ?a1, THEN conjunct1, THEN mp, OF m1]
  have c1: "main example_env ?a1
     = ([Print (''Error: File '' @ [CHR 0x27] @ ''nope.json'' @ [CHR 0x27] @ '' not found'')], 1)"
    by simp
  from main_exit_status [of example_env ?a2 JSONDecodeError, THEN conjunct2, THEN conjunct1, THEN mp, OF m2]
  have c2: "main example_env ?a2 = ([Print ''Error visualizing workflow: invalid document''], 1)"
    by (simp add: bad) (simp add: example_env_def)
  from main_exit_status [of example_env ?a3, THEN conjunct2, THEN conjunct2, THEN mp, OF m3]
  have c3: "snd (main example_env ?a3) = 0" by simp
  from c1 c2 c3 show ?thesis by (intro conjI)
qed

text \<open>
  C9. \<^verbatim>\<open>visualize_workflow_file\<close> passes a derived name on exactly when the output path
  is absent (\<^verbatim>\<open>None\<close> or empty) and \<^verbatim>\<open>show\<close> is false, and then, when nothing raises,
  the figure is saved to that file and to no other; otherwise the output path is passed
  on as given. The derived name is the last component of the input path without its
  extension, followed by \<^verbatim>\<open>_visualization.png\<close>: for a path \<^verbatim>\<open>stem.ext\<close> or
  \<^verbatim>\<open>dir/stem.ext\<close>, where \<^verbatim>\<open>stem\<close> and \<^verbatim>\<open>ext\<close> have no slash, \<^verbatim>\<open>ext\<close> has no dot and
  \<^verbatim>\<open>stem\<close> is not made of dots only, it is \<^verbatim>\<open>stem_visualization.png\<close>; for a last
  component without a dot it is that component followed by \<^verbatim>\<open>_visualization.png\<close>.
  \<^verbatim>\<open>visualize_workflow\<close> saves to no file other than the output path it is given, so to
  none when it is given none.
\<close>

theorem default_output_file:
  "(load ev f = Inr d \<and> \<not> truthy out \<and> \<not> show \<longrightarrow>
       visualize_workflow_file ev f out show
         = visualize_workflow (plt ev) d
             (Some (fst (splitext (basename f)) @ ''_visualization.png'')) show
     \<and> (snd (visualize_workflow_file ev f out show) = Inr () \<longrightarrow>
          saved_files (fst (visualize_workflow_file ev f out show))
            = [fst (splitext (basename f)) @ ''_visualization.png'']))
   \<and> (load ev f = Inr d \<and> (truthy out \<or> show) \<longrightarrow>
       visualize_workflow_file ev f out show = visualize_workflow (plt ev) d out show)
   \<and> (CHR ''/'' \<notin> set stem \<and> CHR ''/'' \<notin> set ext \<and> CHR ''.'' \<notin> set ext
        \<and> (\<exists>c \<in> set stem. c \<noteq> CHR ''.'')
        \<and> (f = stem @ ''.'' @ ext \<or> f = dir @ ''/'' @ stem @ ''.'' @ ext) \<longrightarrow>
       fst (splitext (basename f)) = stem)
   \<and> (CHR ''/'' \<notin> set name \<and> CHR ''.'' \<notin> set name
        \<and> (f = name \<or> f = dir @ ''/'' @ name) \<longrightarrow>
       fst (splitext (basename f)) = name)
   \<and> (truthy out \<longleftrightarrow> out \<noteq> None \<and> out \<noteq> Some [])
   \<and> set (saved_files (fst (visualize_workflow lib d out show))) \<subseteq> set_option out
   \<and> saved_files (fst (visualize_workflow lib d None show)) = []"
proof (intro conjI impI)
  assume a: "load ev f = Inr d \<and> \<not> truthy out \<and> \<not> show"
  then show eq: "visualize_workflow_file ev f out show
         = visualize_workflow (plt ev) d
             (Some (fst (splitext (basename f)) @ ''_visualization.png'')) show"
    by (simp add: visualize_workflow_file_result)
  assume "snd (visualize_workflow_file ev f out show) = Inr ()"
  then have "snd (visualize_workflow (plt ev) d
             (Some (fst (splitext (basename f)) @ ''_visualization.png'')) show) = Inr ()"
    unfolding eq .
  from visualize_workflow_saved_success [OF this]
  show "saved_files (fst (visualize_workflow_file ev f out show))
            = [fst (splitext (basename f)) @ ''_visualization.png'']"
    unfolding eq by (simp add: truthy_def)
next
  assume "load ev f = Inr d \<and> (truthy out \<or> show)"
  then show "visualize_workflow_file ev f out show = visualize_workflow (plt ev) d out show"
    by (auto simp: visualize_workflow_file_result)
next
  assume a: "CHR ''/'' \<notin> set stem \<and> CHR ''/'' \<notin> set ext \<and> CHR ''.'' \<notin> set ext
        \<and> (\<exists>c \<in> set stem. c \<noteq> CHR ''.'')
        \<and> (f = stem @ ''.'' @ ext \<or> f = dir @ ''/'' @ stem @ ''.'' @ ext)"
  then have ns: "CHR ''/'' \<notin> set (stem @ ''.'' @ ext)" by simp
  from a have "f = stem @ ''.'' @ ext \<or> f = dir @ ''/'' @ (stem @ ''.'' @ ext)" by simp
  then have "basename f = stem @ ''.'' @ ext"
    using basename_no_slash [OF ns] basename_after_slash [OF ns, of dir] by auto
  moreover from a have "splitext (stem @ ''.'' @ ext) = (stem, ''.'' @ ext)"
    by (intro splitext_stem) simp_all
  ultimately show "fst (splitext (basename f)) = stem" by simp
next
  assume a: "CHR ''/'' \<notin> set name \<and> CHR ''.'' \<notin> set name
        \<and> (f = name \<or> f = dir @ ''/'' @ name)"
  then have "basename f = name"
    using basename_no_slash [of name] basename_after_slash [of name dir] by auto
  moreover from a have "splitext name = (name, [])" by (intro splitext_no_dot) simp
  ultimately show "fst (splitext (basename f)) = name" by simp
next
  show "truthy out \<longleftrightarrow> out \<noteq> None \<and> out \<noteq> Some []"
    by (cases out) (simp_all add: truthy_def)
next
  show "set (saved_files (fst (visualize_workflow lib d out show))) \<subseteq> set_option out"
    by (rule visualize_workflow_saved_subset)
next
  have "set (saved_files (fst (visualize_workflow lib d None show))) \<subseteq> set_option None"
    by (rule visualize_workflow_saved_subset)
  then show "saved_files (fst (visualize_workflow lib d None show)) = []" by simp
qed

theorem default_output_file_witness:
  "load example_env ''runs/flow.json'' = Inr short_position_doc
   \<and> snd (visualize_workflow_file example_env ''runs/flow.json'' None False) = Inr ()
   \<and> saved_files (fst (visualize_workflow_file example_env ''runs/flow.json'' None False))
       = [''flow_visualization.png'']
   \<and> saved_files (fst (visualize_workflow_file example_env ''flow.json'' None False))
       = [''flow_visualization.png'']
   \<and> fst (splitext (basename ''runs/Makefile'')) = ''Makefile''
   \<and> visualize_workflow_file example_env ''flow.json'' (Some ''out.png'') False
       = visualize_workflow silent short_position_doc (Some ''out.png'') False"
proof -
  have p: "plt example_env = silent" by (simp add: example_env_def)
  have l: "load example_env ''runs/flow.json'' = Inr short_position_doc"
    by (simp add: load_def example_env_def)
  have l': "load example_env ''flow.json'' = Inr short_position_doc"
    by (simp add: load_def example_env_def)
  have h1: "load example_env ''runs/flow.json'' = Inr short_position_doc
              \<and> \<not> truthy None \<and> \<not> False"
    using l by (simp add: truthy_def)
  have h1': "load example_env ''flow.json'' = Inr short_position_doc
              \<and> \<not> truthy None \<and> \<not> False"
    using l' by (simp add: truthy_def)
  have h2: "load example_env ''flow.json'' = Inr short_position_doc
              \<and> (truthy (Some ''out.png'') \<or> False)"
    using l' by (simp add: truthy_def)
  have h3: "CHR ''/'' \<notin> set ''flow'' \<and> CHR ''/'' \<notin> set ''json'' \<and> CHR ''.'' \<notin> set ''json''
        \<and> (\<exists>c \<in> set ''flow''. c \<noteq> CHR ''.'')
        \<and> (''runs/flow.json'' = ''flow'' @ ''.'' @ ''json''
            \<or> ''runs/flow.json'' = ''runs'' @ ''/'' @ ''flow'' @ ''.'' @ ''json'')"
    by simp
  have h3': "CHR ''/'' \<notin> set ''flow'' \<and> CHR ''/'' \<notin> set ''json'' \<and> CHR ''.'' \<notin> set ''json''
        \<and> (\<exists>c \<in> set ''flow''. c \<noteq> CHR ''.'')
        \<and> (''flow.json'' = ''flow'' @ ''.'' @ ''json''
            \<or> ''flow.json'' = ''runs'' @ ''/'' @ ''flow'' @ ''.'' @ ''json'')"
    by simp
  have h4: "CHR ''/'' \<notin> set ''Makefile'' \<and> CHR ''.'' \<notin> set ''Makefile''
        \<and> (''runs/Makefile'' = ''Makefile'' \<or> ''runs/Makefile'' = ''runs'' @ ''/'' @ ''Makefile'')"
    by simp
  note t = default_output_file [of example_env "''runs/flow.json''" short_position_doc None False
      "''flow''" "''json''" "''runs''"]
  note t' = default_output_file [of example_env "''flow.json''" short_position_doc None False
      "''flow''" "''json''" "''runs''"]
  from t [THEN conjunct2, THEN conjunct2, THEN conjunct1, THEN mp, OF h3]
  have name: "fst (splitext (basename ''runs/flow.json'')) = ''flow''" .
  from t' [THEN conjunct2, THEN conjunct2, THEN conjunct1, THEN mp, OF h3']
  have name': "fst (splitext (basename ''flow.json'')) = ''flow''" .
  from default_output_file [where f = "''runs/Makefile''" and name = "''Makefile''"
        and dir = "''runs''",
      THEN conjunct2, THEN conjunct2, THEN conjunct2, THEN conjunct1, THEN mp, OF h4]
  have mk: "fst (splitext (basename ''runs/Makefile'')) = ''Makefile''" .
  have eq: "visualize_workflow_file example_env ''runs/flow.json'' None False
         = visualize_workflow silent short_position_doc (Some ''flow_visualization.png'') False"
    using t [THEN conjunct1, THEN mp, OF h1, THEN conjunct1] unfolding name p by simp
  have eq': "visualize_workflow_file example_env ''flow.json'' None False
         = visualize_workflow silent short_position_doc (Some ''flow_visualization.png'') False"
    using t' [THEN conjunct1, THEN mp, OF h1', THEN conjunct1] unfolding name' p by simp
  have run: "snd (visualize_workflow silent short_position_doc (Some ''flow_visualization.png'') False)
               = Inr ()"
    by code_simp
  have ok: "snd (visualize_workflow_file example_env ''runs/flow.json'' None False) = Inr ()"
    unfolding eq by (rule run)
  have ok': "snd (visualize_workflow_file example_env ''flow.json'' None False) = Inr ()"
    unfolding eq' by (rule run)
  from t [THEN conjunct1, THEN mp, OF h1, THEN conjunct2, THEN mp, OF ok]
  have saved: "saved_files (fst (visualize_workflow_file example_env ''runs/flow.json'' None False))
       = [''flow_visualization.png'']"
    unfolding name by simp
  from t' [THEN conjunct1, THEN mp, OF h1', THEN conjunct2, THEN mp, OF ok']
  have saved': "saved_files (fst (visualize_workflow_file example_env ''flow.json'' None False))
       = [''flow_visualization.png'']"
    unfolding name' by simp
  from default_output_file [of example_env "''flow.json''" short_position_doc "Some ''out.png''" False,
        THEN conjunct2, THEN conjunct1, THEN mp, OF h2]
  have given: "visualize_workflow_file example_env ''flow.json'' (Some ''out.png'') False
       = visualize_workflow silent short_position_doc (Some ''out.png'') False"
    unfolding p .
  from l ok saved saved' mk given show ?thesis by (intro conjI)
qed

text \<open>
  C10. \<^verbatim>\<open>draw\<close> calls the spring layout exactly when the stored position map is
  empty. When the map is not empty and some vertex has no stored position, no layout is
  computed and \<^verbatim>\<open>draw\<close> raises. When the library accepts the stored coordinates, what
  is raised is the missing position: the KeyError of a vertex without position from the
  edge-drawing call, or the graph library's no-position error from the node-drawing call.
\<close>

theorem draw_spring_layout:
  "(SpringLayout \<in> set (fst (draw lib vis output_file show)) \<longleftrightarrow> pos vis = [])
   \<and> (pos vis \<noteq> [] \<and> has_node (graph vis) k \<and> map_of (pos vis) k = None \<longrightarrow>
        SpringLayout \<notin> set (fst (draw lib vis output_file show))
      \<and> (\<exists>e. snd (draw lib vis output_file show) = Inl e)
      \<and> ((\<forall>ev. lib (pos vis) ev = None) \<longrightarrow>
           snd (draw lib vis output_file show) = Inl NetworkXError
         \<or> (\<exists>k'. snd (draw lib vis output_file show) = Inl (KeyError k')
                  \<and> map_of (pos vis) k' = None)))"
proof -
  have iff: "SpringLayout \<in> set (fst (draw lib vis output_file show)) \<longleftrightarrow> pos vis = []"
    using draw_no_layout [of vis lib output_file "show"] draw_layout [of vis lib output_file "show"]
    by blast
  have rest: "SpringLayout \<notin> set (fst (draw lib vis output_file show))
      \<and> (\<exists>e. snd (draw lib vis output_file show) = Inl e)
      \<and> ((\<forall>ev. lib (pos vis) ev = None) \<longrightarrow>
           snd (draw lib vis output_file show) = Inl NetworkXError
         \<or> (\<exists>k'. snd (draw lib vis output_file show) = Inl (KeyError k')
                  \<and> map_of (pos vis) k' = None))"
    if a: "pos vis \<noteq> [] \<and> has_node (graph vis) k \<and> map_of (pos vis) k = None"
  proof (intro conjI impI)
    from a show "SpringLayout \<notin> set (fst (draw lib vis output_file show))"
      by (simp add: draw_no_layout)
    from a obtain n where n: "n \<in> set (g_nodes (graph vis))" "fst n = k"
      by (auto simp: has_node_def)
    from a have p: "drawn_pos vis = pos vis" by (simp add: drawn_pos_def)
    from n a have m: "map_of (pos vis) (fst n) = None" by simp
    from draw_steps_fail [OF n(1) m, of lib] obtain e where
      "snd (io_seq (draw_steps lib vis (drawn_pos vis))) = Inl e" unfolding p by blast
    then have "snd (draw lib vis output_file show) = Inl e" by (rule draw_fails)
    then show "\<exists>e. snd (draw lib vis output_file show) = Inl e" by blast
    assume s: "\<forall>ev. lib (pos vis) ev = None"
    from draw_steps_fail_silent [of n vis "pos vis" lib, OF n(1) m s]
    show "snd (draw lib vis output_file show) = Inl NetworkXError
         \<or> (\<exists>k'. snd (draw lib vis output_file show) = Inl (KeyError k')
                  \<and> map_of (pos vis) k' = None)"
    proof
      assume "snd (io_seq (draw_steps lib vis (pos vis))) = Inl NetworkXError"
      then have "snd (draw lib vis output_file show) = Inl NetworkXError"
        using draw_fails [of lib vis NetworkXError] p by simp
      then show ?thesis by simp
    next
      assume "\<exists>k. snd (io_seq (draw_steps lib vis (pos vis))) = Inl (KeyError k)
                  \<and> map_of (pos vis) k = None"
      then obtain k' where "snd (io_seq (draw_steps lib vis (pos vis))) = Inl (KeyError k')"
        and m': "map_of (pos vis) k' = None" by blast
      then have "snd (draw lib vis output_file show) = Inl (KeyError k')"
        using draw_fails [of lib vis "KeyError k'"] p by simp
      then show ?thesis using m' by blast
    qed
  qed
  from iff rest show ?thesis by blast
qed

theorem draw_spring_layout_witness:
  "pos flat_result \<noteq> [] \<and> has_node (graph flat_result) (KStr ''2'')
   \<and> map_of (pos flat_result) (KStr ''2'') = None
   \<and> SpringLayout \<notin> set (fst (draw silent flat_result None False))
   \<and> snd (draw silent flat_result None False) = Inl (KeyError (KStr ''2''))
   \<and> parse_workflow (WorkflowVisualizer nested_position_doc) = Inr nested_position_result
   \<and> SpringLayout \<notin> set (fst (draw strict nested_position_result None False))
   \<and> snd (draw strict nested_position_result None False) = Inl ValueError
   \<and> pos short_position_result = []
   \<and> SpringLayout \<in> set (fst (draw silent short_position_result None False))"
proof -
  have h: "pos flat_result \<noteq> [] \<and> has_node (graph flat_result) (KStr ''2'')
            \<and> map_of (pos flat_result) (KStr ''2'') = None"
    by (simp add: flat_result_def has_node_def)
  have g: "pos nested_position_result \<noteq> [] \<and> has_node (graph nested_position_result) (KStr ''2'')
            \<and> map_of (pos nested_position_result) (KStr ''2'') = None"
    by (simp add: nested_position_result_def has_node_def)
  have e: "snd (draw silent flat_result None False) = Inl (KeyError (KStr ''2''))" by code_simp
  have e': "snd (draw strict nested_position_result None False) = Inl ValueError" by code_simp
  have pr: "parse_workflow (WorkflowVisualizer nested_position_doc) = Inr nested_position_result"
    by code_simp
  have p: "pos short_position_result = []" by (simp add: short_position_result_def)
  from draw_spring_layout [of silent flat_result None False "KStr ''2''", THEN conjunct2, THEN mp, OF h]
  have n: "SpringLayout \<notin> set (fst (draw silent flat_result None False))" by (rule conjunct1)
  from draw_spring_layout [of strict nested_position_result None False "KStr ''2''",
      THEN conjunct2, THEN mp, OF g]
  have n': "SpringLayout \<notin> set (fst (draw strict nested_position_result None False))"
    by (rule conjunct1)
  from draw_spring_layout [of silent short_position_result None False, THEN conjunct1] p
  have s: "SpringLayout \<in> set (fst (draw silent short_position_result None False))" by (rule iffD2)
  from h e pr n' e' p n s show ?thesis by (intro conjI) simp_all
qed

end
